theory Spec2Isabelle
  imports Main
begin

section \<open>JavaScript values\<close>

text \<open>
  The repository holds three scraping scripts: the browser-backed Reiki scraper
  (\<^verbatim>\<open>scrapeReikiPractitioners\<close>, cap 100), the API-backed dentist scraper (\<^verbatim>\<open>main\<close>, cap 100)
  and the browser-backed Hungarian dentist scraper (\<^verbatim>\<open>scrapeDentists\<close>, cap 500).

  A JavaScript string is modelled as a \<^typ>\<open>string\<close>: one \<^typ>\<open>char\<close> per code unit, for code
  units below 256. Every character test of the scripts (the regular expressions, \<^verbatim>\<open>includes\<close>,
  \<^verbatim>\<open>trim\<close>) separates ASCII characters and white space only.
  An awaited call either rejects (the \<^verbatim>\<open>await\<close> throws) or resolves to a value.
\<close>

datatype 'a promise = Rejected | Resolved 'a

definition code :: "char \<Rightarrow> nat" where
  "code c = of_char c"

definition in_range :: "nat \<Rightarrow> nat \<Rightarrow> nat \<Rightarrow> bool" where
  "in_range lo hi n = (lo \<le> n \<and> n \<le> hi)"

definition is_digit :: "char \<Rightarrow> bool" where
  "is_digit c = in_range 48 57 (code c)"

definition is_upper :: "char \<Rightarrow> bool" where
  "is_upper c = in_range 65 90 (code c)"

definition is_lower :: "char \<Rightarrow> bool" where
  "is_lower c = in_range 97 122 (code c)"

text \<open>White space of \<^verbatim>\<open>\s\<close> and of \<^verbatim>\<open>trim()\<close>: TAB, LF, VT, FF, CR, SP and NBSP.\<close>

definition is_space :: "char \<Rightarrow> bool" where
  "is_space c = (code c \<in> {9, 10, 11, 12, 13, 32, 160})"

text \<open>
  The \<^verbatim>\<open>i\<close> flag: a class matches a code unit when it holds a member with the same canonical
  (upper-case) form. A code unit of 128 or more never canonicalises to an ASCII one, so for
  the ASCII classes of the scripts only the two cases of an ASCII letter are identified.
\<close>

definition flip_case :: "char \<Rightarrow> char" where
  "flip_case c =
     (if is_lower c then char_of (code c - 32)
      else if is_upper c then char_of (code c + 32) else c)"

definition ci :: "(char \<Rightarrow> bool) \<Rightarrow> char \<Rightarrow> bool" where
  "ci p c = (p c \<or> p (flip_case c))"

fun starts_with :: "string \<Rightarrow> string \<Rightarrow> bool" where
  "starts_with s [] = True"
| "starts_with [] (t # ts) = False"
| "starts_with (c # cs) (t # ts) = (c = t \<and> starts_with cs ts)"

text \<open>\<^verbatim>\<open>s.includes(t)\<close>: \<open>t\<close> occurs in \<open>s\<close> as a contiguous substring.\<close>

fun js_includes :: "string \<Rightarrow> string \<Rightarrow> bool" where
  "js_includes [] t = (t = [])"
| "js_includes (c # cs) t = (starts_with (c # cs) t \<or> js_includes cs t)"

text \<open>\<^verbatim>\<open>s.replace(pat, rep)\<close> with a string pattern: the first occurrence only.\<close>

fun replace_first :: "string \<Rightarrow> string \<Rightarrow> string \<Rightarrow> string" where
  "replace_first [] pat rep = (if pat = [] then rep else [])"
| "replace_first (c # cs) pat rep =
     (if starts_with (c # cs) pat then rep @ drop (length pat) (c # cs)
      else c # replace_first cs pat rep)"

definition trim :: "string \<Rightarrow> string" where
  "trim s = rev (dropWhile is_space (rev (dropWhile is_space s)))"

text \<open>\<^verbatim>\<open>url.replace(/\/$/, "")\<close>: one trailing slash is removed.\<close>

definition strip_slash :: "string \<Rightarrow> string" where
  "strip_slash url = (if url \<noteq> [] \<and> last url = CHR ''/'' then butlast url else url)"

text \<open>\<^verbatim>\<open>s.split('?')[0]\<close>: the part before the first question mark.\<close>

definition before_query :: "string \<Rightarrow> string" where
  "before_query s = takeWhile (\<lambda>c. c \<noteq> CHR ''?'') s"

text \<open>A prefix test that ignores the case of ASCII letters (\<^verbatim>\<open>/^.../i\<close>).\<close>

fun starts_with_ci :: "string \<Rightarrow> string \<Rightarrow> bool" where
  "starts_with_ci s [] = True"
| "starts_with_ci [] (t # ts) = False"
| "starts_with_ci (c # cs) (t # ts) = ((c = t \<or> flip_case c = t) \<and> starts_with_ci cs ts)"

section \<open>Regular expressions\<close>

text \<open>
  The expressions the extractors use are sequences of single characters and greedy
  repetitions of a character class. \<open>Rep n p\<close> is \<^verbatim>\<open>[p]{n,}\<close>: it first takes the longest run and
  gives characters back one at a time (backtracking), as the JavaScript matcher does.
\<close>

datatype atom = One "char \<Rightarrow> bool" | Rep nat "char \<Rightarrow> bool"

type_synonym regex = "atom list"

text \<open>
  \<open>match_here r s\<close>: the rest of \<open>s\<close> after the match of \<open>r\<close> at the start of \<open>s\<close>. A repetition
  takes one more character whenever it can, and stops where it stands only when what
  follows in the expression fails after that.
\<close>

fun match_here :: "regex \<Rightarrow> string \<Rightarrow> string option" where
  "match_here [] s = Some s"
| "match_here (One p # r) [] = None"
| "match_here (One p # r) (c # cs) = (if p c then match_here r cs else None)"
| "match_here (Rep n p # r) [] = (if n = 0 then match_here r [] else None)"
| "match_here (Rep n p # r) (c # cs) =
     (if p c then
        (case match_here (Rep (n - 1) p # r) cs of
           Some rest \<Rightarrow> Some rest
         | None \<Rightarrow> if n = 0 then match_here r (c # cs) else None)
      else if n = 0 then match_here r (c # cs) else None)"

text \<open>
  The leftmost match in \<open>s\<close>: the text before it and the matched text.
\<close>

fun find_match :: "regex \<Rightarrow> string \<Rightarrow> (string \<times> string) option" where
  "find_match r [] =
     (case match_here r [] of None \<Rightarrow> None | Some rest \<Rightarrow> Some ([], []))"
| "find_match r (c # cs) =
     (case match_here r (c # cs) of
        Some rest \<Rightarrow> Some ([], take (length (c # cs) - length rest) (c # cs))
      | None \<Rightarrow>
          (case find_match r cs of
             None \<Rightarrow> None
           | Some (pre, m) \<Rightarrow> Some (c # pre, m)))"

text \<open>
  \<^verbatim>\<open>regex.test(s)\<close> on an expression with the \<^verbatim>\<open>g\<close> flag reads and writes \<^verbatim>\<open>lastIndex\<close>: the search
  starts there; a match leaves the index of its end, a failure leaves 0.
\<close>

definition test_g :: "regex \<Rightarrow> nat \<Rightarrow> string \<Rightarrow> bool \<times> nat" where
  "test_g r lastIndex s =
     (if length s < lastIndex then (False, 0)
      else case find_match r (drop lastIndex s) of
             None \<Rightarrow> (False, 0)
           | Some (pre, m) \<Rightarrow> (True, lastIndex + length pre + length m))"

text \<open>\<^verbatim>\<open>regex.test(s)\<close> without the \<^verbatim>\<open>g\<close> flag always searches from the start.\<close>

definition test_re :: "regex \<Rightarrow> string \<Rightarrow> bool" where
  "test_re r s = (find_match r s \<noteq> None)"

text \<open>
  All matches of a \<^verbatim>\<open>g\<close> expression, left to right without overlap; after an empty match the
  search moves on by one code unit. \<^verbatim>\<open>s.match(regex)\<close> is \<^verbatim>\<open>null\<close> when there is none, and
  leaves \<^verbatim>\<open>lastIndex\<close> at 0.
\<close>

function match_all :: "regex \<Rightarrow> string \<Rightarrow> string list" where
  "match_all r [] = (case find_match r [] of None \<Rightarrow> [] | Some (pre, m) \<Rightarrow> [m])"
| "match_all r (c # cs) =
     (case find_match r (c # cs) of
        None \<Rightarrow> []
      | Some (pre, m) \<Rightarrow>
          m # match_all r (drop (length pre + max 1 (length m)) (c # cs)))"
  by pat_completeness auto
termination
  by (relation "measure (\<lambda>(r, s). length s)") auto

definition js_match :: "regex \<Rightarrow> string \<Rightarrow> string list option" where
  "js_match r s = (case match_all r s of [] \<Rightarrow> None | m # ms \<Rightarrow> Some (m # ms))"

text \<open>
  The character classes of the e-mail expressions, on code units:
  \<^verbatim>\<open>[a-zA-Z0-9._%+-]\<close>, \<^verbatim>\<open>[a-zA-Z0-9.-]\<close>, \<^verbatim>\<open>[a-z]\<close>, \<^verbatim>\<open>[a-zA-Z]\<close> and \<^verbatim>\<open>[^\s@]\<close>.
\<close>

definition local_code :: "nat \<Rightarrow> bool" where
  "local_code n =
     (in_range 97 122 n \<or> in_range 65 90 n \<or> in_range 48 57 n \<or> n \<in> {46, 95, 37, 43, 45})"

definition local_chr :: "char \<Rightarrow> bool" where
  "local_chr c = local_code (code c)"

definition domain_code :: "nat \<Rightarrow> bool" where
  "domain_code n = (in_range 97 122 n \<or> in_range 65 90 n \<or> in_range 48 57 n \<or> n \<in> {46, 45})"

definition domain_chr :: "char \<Rightarrow> bool" where
  "domain_chr c = domain_code (code c)"

definition letter_code :: "nat \<Rightarrow> bool" where
  "letter_code n = (in_range 97 122 n \<or> in_range 65 90 n)"

definition letter_chr :: "char \<Rightarrow> bool" where
  "letter_chr c = letter_code (code c)"

definition no_space_at :: "char \<Rightarrow> bool" where
  "no_space_at c = (\<not> is_space c \<and> c \<noteq> CHR ''@'')"

definition is_chr :: "char \<Rightarrow> char \<Rightarrow> bool" where
  "is_chr x c = (c = x)"

text \<open>\<^verbatim>\<open>/[a-zA-Z0-9._%+-]+@[a-zA-Z0-9.-]+\.[a-z]{2,}/gi\<close> (both browser-backed scripts).\<close>

definition emailRegex :: regex where
  "emailRegex =
     [Rep 1 (ci local_chr), One (ci (is_chr CHR ''@'')), Rep 1 (ci domain_chr),
      One (ci (is_chr CHR ''.'')), Rep 2 (ci is_lower)]"

text \<open>\<^verbatim>\<open>/[a-zA-Z0-9._%+-]+@[a-zA-Z0-9.-]+\.[a-zA-Z]{2,}/g\<close> (the API-backed script).\<close>

definition htmlEmailRegex :: regex where
  "htmlEmailRegex =
     [Rep 1 local_chr, One (is_chr CHR ''@''), Rep 1 domain_chr,
      One (is_chr CHR ''.''), Rep 2 letter_chr]"

text \<open>\<^verbatim>\<open>/[^\s@]+@[^\s@]+\.[^\s@]+/\<close> (the API-backed script's test of a mailto target).\<close>

definition shapeRegex :: regex where
  "shapeRegex =
     [Rep 1 no_space_at, One (is_chr CHR ''@''), Rep 1 no_space_at,
      One (is_chr CHR ''.''), Rep 1 no_space_at]"

text \<open>
  The codes of the characters the classes name, and the effect of the \<^verbatim>\<open>i\<close> flag on them:
  the two browser-backed scripts and the API-backed script search for the same strings.
\<close>

lemma class_codes:
  "map code ''._%+-'' = [46, 95, 37, 43, 45]"
  "map code ''azAZ09'' = [97, 122, 65, 90, 48, 57]"
  by (simp_all add: code_def)

lemma code_flip_lower:
  assumes "is_lower c"
  shows "code (flip_case c) = code c - 32"
proof -
  from assms have "code c - 32 < 256" by (auto simp: is_lower_def in_range_def)
  with assms show ?thesis by (simp add: flip_case_def code_def)
qed

lemma code_flip_upper:
  assumes "is_upper c"
  shows "code (flip_case c) = code c + 32"
proof -
  from assms have "code c + 32 < 256" and "\<not> is_lower c"
    by (auto simp: is_upper_def is_lower_def in_range_def)
  with assms show ?thesis by (simp add: flip_case_def code_def)
qed

lemma flip_other: "\<not> is_lower c \<Longrightarrow> \<not> is_upper c \<Longrightarrow> flip_case c = c"
  by (simp add: flip_case_def)

lemma ci_local: "ci local_chr = local_chr"
proof
  fix c
  consider "is_lower c" | "is_upper c" | "\<not> is_lower c" "\<not> is_upper c" by blast
  then show "ci local_chr c = local_chr c"
  proof cases
    case 1
    then show ?thesis by (simp add: ci_def local_chr_def local_code_def is_lower_def)
  next
    case 2
    then show ?thesis by (simp add: ci_def local_chr_def local_code_def is_upper_def)
  next
    case 3
    then show ?thesis by (simp add: ci_def flip_other)
  qed
qed

lemma ci_domain: "ci domain_chr = domain_chr"
proof
  fix c
  consider "is_lower c" | "is_upper c" | "\<not> is_lower c" "\<not> is_upper c" by blast
  then show "ci domain_chr c = domain_chr c"
  proof cases
    case 1
    then show ?thesis by (simp add: ci_def domain_chr_def domain_code_def is_lower_def)
  next
    case 2
    then show ?thesis by (simp add: ci_def domain_chr_def domain_code_def is_upper_def)
  next
    case 3
    then show ?thesis by (simp add: ci_def flip_other)
  qed
qed

lemma ci_lower: "ci is_lower = letter_chr"
proof
  fix c
  consider "is_lower c" | "is_upper c" | "\<not> is_lower c" "\<not> is_upper c" by blast
  then show "ci is_lower c = letter_chr c"
  proof cases
    case 1
    then show ?thesis by (simp add: ci_def letter_chr_def letter_code_def is_lower_def)
  next
    case 2
    with code_flip_upper[OF 2] show ?thesis
      by (simp add: ci_def letter_chr_def letter_code_def is_lower_def is_upper_def in_range_def)
  next
    case 3
    then show ?thesis
      by (simp add: ci_def flip_other letter_chr_def letter_code_def is_lower_def is_upper_def)
  qed
qed

lemma ci_is_chr:
  assumes "\<not> letter_chr x"
  shows "ci (is_chr x) = is_chr x"
proof
  fix c
  consider "is_lower c" | "is_upper c" | "\<not> is_lower c" "\<not> is_upper c" by blast
  then show "ci (is_chr x) c = is_chr x c"
  proof cases
    case 1
    have "flip_case c \<noteq> x"
    proof
      assume "flip_case c = x"
      with code_flip_lower[OF 1] 1 assms show False
        by (auto simp: letter_chr_def letter_code_def is_lower_def in_range_def)
    qed
    then show ?thesis by (auto simp: ci_def is_chr_def)
  next
    case 2
    have "flip_case c \<noteq> x"
    proof
      assume "flip_case c = x"
      with code_flip_upper[OF 2] 2 assms show False
        by (auto simp: letter_chr_def letter_code_def is_upper_def in_range_def)
    qed
    then show ?thesis by (auto simp: ci_def is_chr_def)
  next
    case 3
    then show ?thesis by (simp add: ci_def flip_other)
  qed
qed

lemma emailRegex_code [code]:
  "emailRegex =
     [Rep 1 local_chr, One (is_chr CHR ''@''), Rep 1 domain_chr,
      One (is_chr CHR ''.''), Rep 2 letter_chr]"
proof -
  have "\<not> letter_chr CHR ''@''" and "\<not> letter_chr CHR ''.''"
    by (simp_all add: letter_chr_def letter_code_def in_range_def code_def)
  then show ?thesis
    by (simp add: emailRegex_def ci_local ci_domain ci_lower ci_is_chr)
qed

lemma emailRegex_html: "emailRegex = htmlEmailRegex"
  by (simp add: emailRegex_code htmlEmailRegex_def)

section \<open>The e-mail extractors\<close>

subsection \<open>Browser-backed: \<^verbatim>\<open>scrapeWebsiteForEmail(url, browser)\<close> of the Reiki script\<close>

text \<open>
  What the browser shows of a page the tab has navigated to: the \<^verbatim>\<open>href\<close> properties of the
  anchors selected by \<^verbatim>\<open>a[href^="mailto:"]\<close>, in document order (\<^verbatim>\<open>page.$$eval\<close>), and the
  markup (\<^verbatim>\<open>page.content()\<close>). Either call may reject.
\<close>

record rendered_page =
  page_mailto_hrefs :: "string list promise"
  page_content :: "string promise"

text \<open>
  The browser session: whether \<^verbatim>\<open>browser.newPage()\<close> and \<^verbatim>\<open>page.close()\<close> resolve, and what
  \<^verbatim>\<open>page.goto(url)\<close> leads to (a rejection stands for a timeout or a navigation error).
\<close>

record browser =
  newPage_ok :: bool
  goto :: "string \<Rightarrow> rendered_page promise"
  close_ok :: bool

definition possiblePaths :: "string list" where
  "possiblePaths = ['''', ''/contact'', ''/contact-us'', ''/about'', ''/about-us'']"

text \<open>\<^verbatim>\<open>link.href.replace("mailto:", "").trim()\<close>\<close>

definition mailto_target :: "string \<Rightarrow> string" where
  "mailto_target href = trim (replace_first href ''mailto:'' [])"

text \<open>\<^verbatim>\<open>links.find(e => regex.test(e))\<close>, with the \<^verbatim>\<open>lastIndex\<close> of the \<^verbatim>\<open>g\<close> expression threaded.\<close>

fun find_test :: "regex \<Rightarrow> nat \<Rightarrow> string list \<Rightarrow> string option \<times> nat" where
  "find_test r lastIndex [] = (None, lastIndex)"
| "find_test r lastIndex (e # es) =
     (case test_g r lastIndex e of
        (True, li) \<Rightarrow> (Some e, li)
      | (False, li) \<Rightarrow> find_test r li es)"

text \<open>One turn of the loop over the paths, after \<^verbatim>\<open>page.goto\<close>.\<close>

datatype probe = Found string | Nothing nat | Failed

definition scan_content :: "rendered_page \<Rightarrow> probe" where
  "scan_content page =
     (case page_content page of
        Rejected \<Rightarrow> Failed
      | Resolved content \<Rightarrow>
          (case js_match emailRegex content of
             None \<Rightarrow> Nothing 0
           | Some matches \<Rightarrow>
               (case find (\<lambda>e. \<not> js_includes e ''example.com'' \<and> \<not> js_includes e ''w3.org'')
                       matches of
                  None \<Rightarrow> Nothing 0
                | Some e \<Rightarrow> if e \<noteq> [] then Found e else Nothing 0)))"

definition probe_page :: "nat \<Rightarrow> rendered_page \<Rightarrow> probe" where
  "probe_page lastIndex page =
     (case page_mailto_hrefs page of
        Rejected \<Rightarrow> Failed
      | Resolved hrefs \<Rightarrow>
          (let mailtoLinks = map mailto_target hrefs in
           if mailtoLinks \<noteq> [] then
             (case find_test emailRegex lastIndex mailtoLinks of
                (Some e, li) \<Rightarrow> if e \<noteq> [] then Found e else scan_content page
              | (None, li) \<Rightarrow> scan_content page)
           else scan_content page))"

definition targetUrl :: "string \<Rightarrow> string \<Rightarrow> string" where
  "targetUrl url path = (if path \<noteq> [] then strip_slash url @ path else url)"

text \<open>
  The loop over the paths inside the \<^verbatim>\<open>try\<close> block: the e-mail returned (\<open>None\<close> is \<^verbatim>\<open>null\<close>) and the
  URLs the tab was sent to, in order. A rejection inside the loop is caught and gives \<^verbatim>\<open>null\<close>.
\<close>

fun probe_paths :: "browser \<Rightarrow> string \<Rightarrow> nat \<Rightarrow> string list \<Rightarrow> string option \<times> string list" where
  "probe_paths b url lastIndex [] = (None, [])"
| "probe_paths b url lastIndex (path # paths) =
     (case goto b (targetUrl url path) of
        Rejected \<Rightarrow> (None, [targetUrl url path])
      | Resolved page \<Rightarrow>
          (case probe_page lastIndex page of
             Found e \<Rightarrow> (Some e, [targetUrl url path])
           | Failed \<Rightarrow> (None, [targetUrl url path])
           | Nothing li \<Rightarrow>
               (case probe_paths b url li paths of
                  (email, visited) \<Rightarrow> (email, targetUrl url path # visited))))"

text \<open>
  The whole function. \<^verbatim>\<open>browser.newPage()\<close> stands before the \<^verbatim>\<open>try\<close> and \<^verbatim>\<open>page.close()\<close> in its
  \<^verbatim>\<open>finally\<close>: a rejection of either reaches the caller.
\<close>

definition scrapeWebsiteForEmail :: "browser \<Rightarrow> string \<Rightarrow> string option promise \<times> string list" where
  "scrapeWebsiteForEmail b url =
     (if url = [] then (Resolved None, [])
      else if \<not> newPage_ok b then (Rejected, [])
      else case probe_paths b url 0 possiblePaths of
             (email, visited) \<Rightarrow> (if close_ok b then Resolved email else Rejected, visited))"

subsection \<open>HTTP-backed: \<^verbatim>\<open>extractEmailFromWebsite(url)\<close> of the API script\<close>

record http_response =
  res_ok :: bool
  res_text :: "string promise"

text \<open>
  The collaborators of the function: \<^verbatim>\<open>fetch\<close>; the \<^verbatim>\<open>href\<close> attributes of the anchors that
  cheerio selects by \<^verbatim>\<open>a[href^='mailto:']\<close> in the loaded markup, in document order; and
  \<^verbatim>\<open>decodeURIComponent\<close>, which throws on a malformed escape.
\<close>

record web =
  fetch :: "string \<Rightarrow> http_response promise"
  select_mailto :: "string \<Rightarrow> string list"
  decodeURIComponent :: "string \<Rightarrow> string promise"

text \<open>\<^verbatim>\<open>if (!/^https?:\/\//i.test(url)) url = 'http://' + url\<close>\<close>

definition with_scheme :: "string \<Rightarrow> string" where
  "with_scheme url =
     (if starts_with_ci url ''http://'' \<or> starts_with_ci url ''https://'' then url
      else ''http://'' @ url)"

text \<open>\<^verbatim>\<open>mailto.replace(/^mailto:/i, '')\<close>\<close>

definition drop_mailto :: "string \<Rightarrow> string" where
  "drop_mailto m = (if starts_with_ci m ''mailto:'' then drop 7 m else m)"

text \<open>\<^verbatim>\<open>html.match(...)\<close> and \<^verbatim>\<open>emails[0]\<close>.\<close>

definition first_in_markup :: "string \<Rightarrow> string option" where
  "first_in_markup html =
     (case js_match htmlEmailRegex html of None \<Rightarrow> None | Some emails \<Rightarrow> Some (hd emails))"

text \<open>\<^verbatim>\<open>$("a[href^='mailto:']").first().attr('href')\<close>\<close>

definition first_mailto :: "web \<Rightarrow> string \<Rightarrow> string option" where
  "first_mailto w html = (case select_mailto w html of [] \<Rightarrow> None | href # rest \<Rightarrow> Some href)"

text \<open>The \<^verbatim>\<open>try\<close> block.\<close>

definition extract_try :: "web \<Rightarrow> string \<Rightarrow> string option promise" where
  "extract_try w url =
     (case fetch w url of
        Rejected \<Rightarrow> Rejected
      | Resolved res \<Rightarrow>
          if \<not> res_ok res then Resolved None
          else case res_text res of
                 Rejected \<Rightarrow> Rejected
               | Resolved html \<Rightarrow>
                   (case first_mailto w html of
                      None \<Rightarrow> Resolved (first_in_markup html)
                    | Some mailto \<Rightarrow>
                        if mailto = [] then Resolved (first_in_markup html)
                        else case decodeURIComponent w (before_query (drop_mailto mailto)) of
                               Rejected \<Rightarrow> Rejected
                             | Resolved em \<Rightarrow>
                                 if test_re shapeRegex em then Resolved (Some em)
                                 else Resolved (first_in_markup html)))"

text \<open>The argument is \<^verbatim>\<open>placeDetails?.website ?? null\<close>: \<open>None\<close> is \<^verbatim>\<open>null\<close>.\<close>

definition extractEmailFromWebsite :: "web \<Rightarrow> string option \<Rightarrow> string option promise" where
  "extractEmailFromWebsite w website =
     (case website of
        None \<Rightarrow> Resolved None
      | Some url \<Rightarrow>
          if url = [] then Resolved None
          else case extract_try w (with_scheme url) of
                 Rejected \<Rightarrow> Resolved None
               | Resolved email \<Rightarrow> Resolved email)"

subsection \<open>HTTP-backed: \<^verbatim>\<open>scrapeWebsiteForEmail(url)\<close> of the Hungarian script\<close>

text \<open>
  \<^verbatim>\<open>response.data\<close> is the body as a string, or what axios made of a body it could parse as
  JSON; the latter has no \<^verbatim>\<open>match\<close> method, so the call throws inside the \<^verbatim>\<open>try\<close>.
\<close>

datatype axios_data = Text string | Parsed

definition axios_try :: "(string \<Rightarrow> axios_data promise) \<Rightarrow> string \<Rightarrow> string option promise" where
  "axios_try axios_get url =
     (case axios_get url of
        Rejected \<Rightarrow> Rejected
      | Resolved Parsed \<Rightarrow> Rejected
      | Resolved (Text d) \<Rightarrow>
          (case js_match emailRegex d of
             None \<Rightarrow> Resolved None
           | Some matches \<Rightarrow>
               (case find (\<lambda>email. \<not> js_includes email ''example.com'') matches of
                  None \<Rightarrow> Resolved None
                | Some email \<Rightarrow> Resolved (if email \<noteq> [] then Some email else None))))"

definition scrapeWebsiteForEmail_axios ::
  "(string \<Rightarrow> axios_data promise) \<Rightarrow> string \<Rightarrow> string option promise" where
  "scrapeWebsiteForEmail_axios axios_get url =
     (if url = [] then Resolved None
      else case axios_try axios_get url of
             Rejected \<Rightarrow> Resolved None
           | Resolved email \<Rightarrow> Resolved email)"

section \<open>Properties of the extractors\<close>

lemma test_g_fail_zero: "test_g r li s = (False, li') \<Longrightarrow> li' = 0"
  by (auto simp: test_g_def split: if_splits option.splits)

lemma test_g_zero: "fst (test_g r 0 s) = test_re r s"
  by (auto simp: test_g_def test_re_def split: option.splits)

lemma find_test_zero: "fst (find_test r 0 es) = find (test_re r) es"
proof (induction es)
  case Nil
  then show ?case by simp
next
  case (Cons e es)
  show ?case
  proof (cases "test_g r 0 e")
    case (Pair ok li)
    show ?thesis
    proof (cases ok)
      case True
      with Pair test_g_zero[of r e] show ?thesis by simp
    next
      case False
      with Pair have "test_g r 0 e = (False, li)" by simp
      then have "li = 0" by (rule test_g_fail_zero)
      with Pair False Cons test_g_zero[of r e] show ?thesis by simp
    qed
  qed
qed

lemma find_test_none_zero: "find_test r 0 es = (None, li) \<Longrightarrow> li = 0"
proof (induction es)
  case Nil
  then show ?case by simp
next
  case (Cons e es)
  show ?case
  proof (cases "test_g r 0 e")
    case (Pair ok li')
    show ?thesis
    proof (cases ok)
      case True
      with Pair Cons.prems show ?thesis by simp
    next
      case False
      with Pair have "test_g r 0 e = (False, li')" by simp
      then have "li' = 0" by (rule test_g_fail_zero)
      with Pair False Cons show ?thesis by simp
    qed
  qed
qed

lemma scan_content_nothing: "scan_content page = Nothing li \<Longrightarrow> li = 0"
  by (auto simp: scan_content_def split: promise.splits option.splits if_splits)

lemma probe_page_nothing: "probe_page 0 page = Nothing li \<Longrightarrow> li = 0"
  by (auto simp: probe_page_def Let_def split: promise.splits option.splits if_splits prod.splits dest: scan_content_nothing)


lemma emailRegex_not_empty: "test_re emailRegex e \<Longrightarrow> e \<noteq> []"
proof
  assume a: "test_re emailRegex e" and "e = []"
  then have "test_re emailRegex []" by simp
  moreover have "\<not> test_re emailRegex []" by code_simp
  ultimately show False by simp
qed

lemma find_Some_holds: "find P xs = Some x \<Longrightarrow> P x"
  by (induction xs) (auto split: if_splits)

lemma probe_page_mailto:
  assumes "page_mailto_hrefs page = Resolved hrefs"
    and "find (test_re emailRegex) (map mailto_target hrefs) = Some e"
  shows "probe_page 0 page = Found e"
proof -
  from assms(2) have ne: "map mailto_target hrefs \<noteq> []" by auto
  from assms(2) have "test_re emailRegex e" by (rule find_Some_holds)
  then have e: "e \<noteq> []" by (rule emailRegex_not_empty)
  obtain li where "find_test emailRegex 0 (map mailto_target hrefs) = (Some e, li)"
    using find_test_zero[of emailRegex "map mailto_target hrefs"] assms(2)
    by (cases "find_test emailRegex 0 (map mailto_target hrefs)") simp
  with assms(1) ne e show ?thesis
    by (simp add: probe_page_def)
qed

lemma probe_paths_first:
  assumes "\<forall>p\<in>set pre. \<exists>page. goto b (targetUrl url p) = Resolved page \<and> probe_page 0 page = Nothing 0"
    and "goto b (targetUrl url path) = Resolved page"
    and "probe_page 0 page = Found e"
  shows "probe_paths b url 0 (pre @ path # post) = (Some e, map (targetUrl url) (pre @ [path]))"
  using assms
proof (induction pre)
  case Nil
  then show ?case by simp
next
  case (Cons p pre)
  then obtain pg where "goto b (targetUrl url p) = Resolved pg" "probe_page 0 pg = Nothing 0"
    by auto
  with Cons show ?case by simp
qed

lemma probe_paths_exhausted:
  assumes "\<forall>p\<in>set paths. \<exists>page. goto b (targetUrl url p) = Resolved page \<and> probe_page 0 page = Nothing 0"
  shows "probe_paths b url 0 paths = (None, map (targetUrl url) paths)"
  using assms
proof (induction paths)
  case Nil
  then show ?case by simp
next
  case (Cons p paths)
  then obtain pg where "goto b (targetUrl url p) = Resolved pg" "probe_page 0 pg = Nothing 0"
    by auto
  with Cons show ?case by simp
qed

lemma probe_paths_rejected:
  assumes "u \<in> set (snd (probe_paths b url li paths))" and "goto b u = Rejected"
  shows "fst (probe_paths b url li paths) = None"
  using assms
proof (induction paths arbitrary: li)
  case Nil
  then show ?case by simp
next
  case (Cons p paths)
  show ?case
  proof (cases "goto b (targetUrl url p)")
    case Rejected
    then show ?thesis by simp
  next
    case (Resolved pg)
    show ?thesis
    proof (cases "probe_page li pg")
      case (Found e)
      with Resolved Cons.prems show ?thesis by auto
    next
      case (Nothing li')
      with Resolved Cons.prems have "u \<in> set (snd (probe_paths b url li' paths))"
        by (auto split: prod.splits)
      with Cons.IH Cons.prems(2) have "fst (probe_paths b url li' paths) = None" by blast
      with Resolved Nothing show ?thesis by (auto split: prod.splits)
    next
      case Failed
      with Resolved show ?thesis by simp
    qed
  qed
qed

lemma probe_paths_cong:
  assumes "\<forall>p\<in>set paths. goto b (targetUrl url p) = goto b' (targetUrl url p)"
  shows "probe_paths b url li paths = probe_paths b' url li paths"
  using assms
  by (induction paths arbitrary: li) (auto split: promise.splits probe.splits prod.splits)

section \<open>Claim C7: the paths are probed in order, up to the first e-mail\<close>

text \<open>A site whose root page shows no address and whose \<^verbatim>\<open>/contact\<close> page shows one.\<close>

definition healing_site :: browser where
  "healing_site =
     \<lparr>newPage_ok = True,
      goto = (\<lambda>u.
        if u = ''https://healing-hands.co.uk'' then
          Resolved \<lparr>page_mailto_hrefs = Resolved [],
                    page_content = Resolved ''<h1>Healing Hands Reiki</h1>''\<rparr>
        else if u = ''https://healing-hands.co.uk/contact'' then
          Resolved \<lparr>page_mailto_hrefs = Resolved [],
                    page_content = Resolved ''<p>Email: jane@healing-hands.co.uk</p>''\<rparr>
        else Rejected),
      close_ok = True\<rparr>"


text \<open>
  Claim C7. The browser-backed extractor probes the paths \<^verbatim>\<open>""\<close>, \<^verbatim>\<open>/contact\<close>, \<^verbatim>\<open>/contact-us\<close>,
  \<^verbatim>\<open>/about\<close>, \<^verbatim>\<open>/about-us\<close> in this order and returns the first e-mail found, stopping there:
  when the pages of the paths before \<open>path\<close> load and show no e-mail and the page of \<open>path\<close>
  loads and shows \<open>e\<close>, the result is \<open>e\<close> and the tab has been sent to the URLs of the paths up
  to \<open>path\<close> and to no other. (The tab is taken to open and close; the URL is not empty.)
\<close>

theorem probes_paths_in_order:
  assumes "url \<noteq> []" and "newPage_ok b" and "close_ok b"
    and "possiblePaths = pre @ path # post"
    and "\<forall>p\<in>set pre. \<exists>page. goto b (targetUrl url p) = Resolved page \<and> probe_page 0 page = Nothing 0"
    and "goto b (targetUrl url path) = Resolved page"
    and "probe_page 0 page = Found e"
  shows "possiblePaths = ['''', ''/contact'', ''/contact-us'', ''/about'', ''/about-us''] \<and>
         scrapeWebsiteForEmail b url = (Resolved (Some e), map (targetUrl url) (pre @ [path]))"
proof -
  from assms(5-7)
  have "probe_paths b url 0 (pre @ path # post) = (Some e, map (targetUrl url) (pre @ [path]))"
    by (rule probe_paths_first)
  with assms(1-4) show ?thesis
    by (simp add: scrapeWebsiteForEmail_def possiblePaths_def)
qed

theorem probes_paths_in_order_witness:
  "scrapeWebsiteForEmail healing_site ''https://healing-hands.co.uk'' =
     (Resolved (Some ''jane@healing-hands.co.uk''),
      [''https://healing-hands.co.uk'', ''https://healing-hands.co.uk/contact''])"
proof -
  let ?url = "''https://healing-hands.co.uk''"
  let ?root = "\<lparr>page_mailto_hrefs = Resolved [],
                 page_content = Resolved ''<h1>Healing Hands Reiki</h1>''\<rparr>"
  let ?contact = "\<lparr>page_mailto_hrefs = Resolved [],
                    page_content = Resolved ''<p>Email: jane@healing-hands.co.uk</p>''\<rparr>"
  have h1: "?url \<noteq> []" by simp
  have h2: "newPage_ok healing_site" and h3: "close_ok healing_site"
    by (simp_all add: healing_site_def)
  have h4: "possiblePaths = [''''] @ ''/contact'' # [''/contact-us'', ''/about'', ''/about-us'']"
    by (simp add: possiblePaths_def)
  have root: "probe_page 0 ?root = Nothing 0" by code_simp
  have h5: "\<forall>p\<in>set ['''']. \<exists>page. goto healing_site (targetUrl ?url p) = Resolved page
              \<and> probe_page 0 page = Nothing 0"
    using root by (simp add: healing_site_def targetUrl_def)
  have h6: "goto healing_site (targetUrl ?url ''/contact'') = Resolved ?contact"
    by code_simp
  have h7: "probe_page 0 ?contact = Found ''jane@healing-hands.co.uk''" by code_simp
  have t: "map (targetUrl ?url) ([''''] @ [''/contact'']) =
             [''https://healing-hands.co.uk'', ''https://healing-hands.co.uk/contact'']"
    by code_simp
  from probes_paths_in_order[OF h1 h2 h3 h4 h5 h6 h7] t show ?thesis by simp
qed

section \<open>Claim C5: a mailto link is preferred to text in the markup\<close>

text \<open>
  Pages of the examples: a page with a mailto link and another address in its text; a page
  whose first mailto link hides its address and whose second shows one; a page whose mailto
  link carries a subject; a page whose mailto link has no address; a page without a mailto
  link; a page whose mailto link holds a malformed escape.
\<close>

definition leeds_page :: rendered_page where
  "leeds_page =
     \<lparr>page_mailto_hrefs = Resolved [''mailto:bookings@reiki-leeds.co.uk''],
      page_content = Resolved
        ''<p>press@reiki-leeds.co.uk</p><a href=mailto:bookings@reiki-leeds.co.uk>Book</a>''\<rparr>"

definition leeds_site :: browser where
  "leeds_site =
     \<lparr>newPage_ok = True,
      goto = (\<lambda>u. if u = ''https://reiki-leeds.co.uk/'' then Resolved leeds_page else Rejected),
      close_ok = True\<rparr>"

definition clinic_html :: string where
  "clinic_html =
     ''<p>Write to office@clinic.hu</p><a href=mailto:info[at]clinic.hu>Mail</a><a href=mailto:dr.kovacs@clinic.hu>Dr. Kovacs</a>''"

text \<open>The decoder of the examples: the identity on a string without an escape.\<close>

definition plain_decode :: "string \<Rightarrow> string promise" where
  "plain_decode s = (if CHR ''%'' \<in> set s then Rejected else Resolved s)"

definition clinic_web :: web where
  "clinic_web =
     \<lparr>fetch = (\<lambda>u. if u = ''http://clinic.hu''
                  then Resolved \<lparr>res_ok = True, res_text = Resolved clinic_html\<rparr>
                  else Rejected),
      select_mailto = (\<lambda>html. if html = clinic_html
                  then [''mailto:info[at]clinic.hu'', ''mailto:dr.kovacs@clinic.hu'']
                  else []),
      decodeURIComponent = plain_decode\<rparr>"

definition praxis_html :: string where
  "praxis_html =
     ''<p>Press: presse@praxis.nl</p><a href=mailto:balie@praxis.nl?subject=Afspraak>Mail</a>''"

definition praxis_web :: web where
  "praxis_web =
     \<lparr>fetch = (\<lambda>u. if u = ''https://praxis.nl''
                  then Resolved \<lparr>res_ok = True, res_text = Resolved praxis_html\<rparr>
                  else Rejected),
      select_mailto = (\<lambda>html. if html = praxis_html
                  then [''mailto:balie@praxis.nl?subject=Afspraak''] else []),
      decodeURIComponent = plain_decode\<rparr>"

definition form_page :: rendered_page where
  "form_page =
     \<lparr>page_mailto_hrefs = Resolved [''mailto:?subject=Reiki''],
      page_content = Resolved ''<p>press@reiki-leeds.co.uk</p><a href=mailto:?subject=Reiki>Ask</a>''\<rparr>"

definition leaflet_html :: string where
  "leaflet_html = ''<p>Mail z@b.nl</p>''"

definition promo_html :: string where
  "promo_html = ''<p>Mail z@b.nl</p><a href=mailto:50%off@b.nl>Promo</a>''"

definition leaflet_web :: web where
  "leaflet_web =
     \<lparr>fetch = (\<lambda>u. if u = ''http://leaflet.nl''
                  then Resolved \<lparr>res_ok = True, res_text = Resolved leaflet_html\<rparr>
                  else if u = ''http://promo.nl''
                  then Resolved \<lparr>res_ok = True, res_text = Resolved promo_html\<rparr>
                  else Rejected),
      select_mailto = (\<lambda>html. if html = promo_html then [''mailto:50%off@b.nl''] else []),
      decodeURIComponent = plain_decode\<rparr>"

text \<open>
  Claim C5 as stated fails for the API-backed extractor, which reads the first mailto link
  only: on a page whose second mailto link has the e-mail-shaped target
  \<^verbatim>\<open>dr.kovacs@clinic.hu\<close> and whose text shows \<^verbatim>\<open>office@clinic.hu\<close>, it returns the address of the
  text.
\<close>

theorem mailto_not_preferred_counterexample:
  "select_mailto clinic_web clinic_html = [''mailto:info[at]clinic.hu'', ''mailto:dr.kovacs@clinic.hu'']
   \<and> test_re shapeRegex ''dr.kovacs@clinic.hu''
   \<and> match_all htmlEmailRegex clinic_html = [''office@clinic.hu'', ''dr.kovacs@clinic.hu'']
   \<and> extractEmailFromWebsite clinic_web (Some ''clinic.hu'') = Resolved (Some ''office@clinic.hu'')"
  by code_simp

lemma scrape_root_mailto:
  assumes "url \<noteq> []" and "newPage_ok b" and "close_ok b" and "goto b url = Resolved page"
    and "page_mailto_hrefs page = Resolved hrefs"
    and "find (test_re emailRegex) (map mailto_target hrefs) = Some e"
  shows "scrapeWebsiteForEmail b url = (Resolved (Some e), [url])"
proof -
  from assms(5,6) have "probe_page 0 page = Found e" by (rule probe_page_mailto)
  with assms(1-4) show ?thesis
    by (simp add: scrapeWebsiteForEmail_def possiblePaths_def targetUrl_def)
qed

lemma extract_first_mailto:
  assumes "url \<noteq> []" and "fetch w (with_scheme url) = Resolved res" and "res_ok res"
    and "res_text res = Resolved html" and "select_mailto w html = href # others"
    and "href \<noteq> []"
    and "decodeURIComponent w (before_query (drop_mailto href)) = Resolved em"
    and "test_re shapeRegex em"
  shows "extractEmailFromWebsite w (Some url) = Resolved (Some em)"
  using assms by (simp add: extractEmailFromWebsite_def extract_try_def first_mailto_def)

lemma scrape_cong:
  assumes "\<forall>p\<in>set possiblePaths. goto b (targetUrl url p) = goto b' (targetUrl url p)"
    and "newPage_ok b = newPage_ok b'" and "close_ok b = close_ok b'"
  shows "scrapeWebsiteForEmail b url = scrapeWebsiteForEmail b' url"
  using probe_paths_cong[OF assms(1), of 0] assms(2,3)
  by (simp add: scrapeWebsiteForEmail_def)

lemma extract_cong:
  assumes "fetch w (with_scheme url) = fetch w' (with_scheme url)"
    and "select_mailto w = select_mailto w'" and "decodeURIComponent w = decodeURIComponent w'"
  shows "extractEmailFromWebsite w (Some url) = extractEmailFromWebsite w' (Some url)"
proof -
  have "first_mailto w = first_mailto w'"
    using assms(2) by (simp add: fun_eq_iff first_mailto_def)
  with assms(1,3) have "extract_try w (with_scheme url) = extract_try w' (with_scheme url)"
    by (simp add: extract_try_def split: promise.splits option.splits)
  then show ?thesis by (simp add: extractEmailFromWebsite_def)
qed

lemma probe_page_no_mailto:
  assumes "page_mailto_hrefs page = Resolved hrefs"
    and "find (test_re emailRegex) (map mailto_target hrefs) = None"
  shows "probe_page 0 page = scan_content page"
proof -
  obtain r li where f: "find_test emailRegex 0 (map mailto_target hrefs) = (r, li)"
    by (cases "find_test emailRegex 0 (map mailto_target hrefs)") auto
  then have "r = find (test_re emailRegex) (map mailto_target hrefs)"
    using find_test_zero[of emailRegex "map mailto_target hrefs"] by simp
  with assms(2) have "r = None" by simp
  with f assms(1) show ?thesis by (simp add: probe_page_def Let_def)
qed

lemma extract_first_not_shaped:
  assumes "site \<noteq> []" and "fetch w (with_scheme site) = Resolved res" and "res_ok res"
    and "res_text res = Resolved html" and "select_mailto w html = href # others"
    and "href \<noteq> []"
    and "decodeURIComponent w (before_query (drop_mailto href)) = Resolved em"
    and "\<not> test_re shapeRegex em"
  shows "extractEmailFromWebsite w (Some site) = Resolved (first_in_markup html)"
  using assms by (simp add: extractEmailFromWebsite_def extract_try_def first_mailto_def)

lemma extract_no_mailto:
  assumes "site \<noteq> []" and "fetch w (with_scheme site) = Resolved res" and "res_ok res"
    and "res_text res = Resolved html" and "select_mailto w html = []"
  shows "extractEmailFromWebsite w (Some site) = Resolved (first_in_markup html)"
  using assms by (simp add: extractEmailFromWebsite_def extract_try_def first_mailto_def)

lemma extract_decode_throws:
  assumes "site \<noteq> []" and "fetch w (with_scheme site) = Resolved res" and "res_ok res"
    and "res_text res = Resolved html" and "select_mailto w html = href # others"
    and "href \<noteq> []"
    and "decodeURIComponent w (before_query (drop_mailto href)) = Rejected"
  shows "extractEmailFromWebsite w (Some site) = Resolved None"
  using assms by (simp add: extractEmailFromWebsite_def extract_try_def first_mailto_def)

text \<open>
  Claim C5, amended. The browser-backed extractor returns the first mailto target that holds
  an e-mail-shaped string, whatever the markup shows (first conjunct: one page; third: the
  whole function when that page is the root page); when no mailto target holds one, the page
  gives what the scan of its markup gives (second). The API-backed extractor reads the first
  mailto link only. When its target, cut at the question mark and decoded, is e-mail-shaped,
  that target is returned (fourth); when the target decodes to a string that is not
  e-mail-shaped, or when the page has no mailto link, the first e-mail-shaped string of the
  markup is returned, or none if there is none (fifth and sixth); when the decoding throws,
  none is returned (seventh). Both are functions of the content: the index the \<^verbatim>\<open>g\<close>
  expression carries is 0 whenever a page has shown nothing (eighth), and the result depends
  on the session only through the pages of the five probed URLs, respectively through the
  response, the selected links and the decoder (ninth and tenth).
\<close>

theorem mailto_preferred:
  "(page_mailto_hrefs page = Resolved hrefs \<and>
      find (test_re emailRegex) (map mailto_target hrefs) = Some e \<longrightarrow>
      probe_page 0 page = Found e) \<and>
   (page_mailto_hrefs page = Resolved hrefs \<and>
      find (test_re emailRegex) (map mailto_target hrefs) = None \<longrightarrow>
      probe_page 0 page = scan_content page) \<and>
   (url \<noteq> [] \<and> newPage_ok b \<and> close_ok b \<and> goto b url = Resolved page \<and>
      page_mailto_hrefs page = Resolved hrefs \<and>
      find (test_re emailRegex) (map mailto_target hrefs) = Some e \<longrightarrow>
      scrapeWebsiteForEmail b url = (Resolved (Some e), [url])) \<and>
   (site \<noteq> [] \<and> fetch w (with_scheme site) = Resolved res \<and> res_ok res \<and>
      res_text res = Resolved html \<and> select_mailto w html = href # others \<and> href \<noteq> [] \<and>
      decodeURIComponent w (before_query (drop_mailto href)) = Resolved em \<and>
      test_re shapeRegex em \<longrightarrow>
      extractEmailFromWebsite w (Some site) = Resolved (Some em)) \<and>
   (site \<noteq> [] \<and> fetch w (with_scheme site) = Resolved res \<and> res_ok res \<and>
      res_text res = Resolved html \<and> select_mailto w html = href # others \<and> href \<noteq> [] \<and>
      decodeURIComponent w (before_query (drop_mailto href)) = Resolved em \<and>
      \<not> test_re shapeRegex em \<longrightarrow>
      extractEmailFromWebsite w (Some site) = Resolved (first_in_markup html)) \<and>
   (site \<noteq> [] \<and> fetch w (with_scheme site) = Resolved res \<and> res_ok res \<and>
      res_text res = Resolved html \<and> select_mailto w html = [] \<longrightarrow>
      extractEmailFromWebsite w (Some site) = Resolved (first_in_markup html)) \<and>
   (site \<noteq> [] \<and> fetch w (with_scheme site) = Resolved res \<and> res_ok res \<and>
      res_text res = Resolved html \<and> select_mailto w html = href # others \<and> href \<noteq> [] \<and>
      decodeURIComponent w (before_query (drop_mailto href)) = Rejected \<longrightarrow>
      extractEmailFromWebsite w (Some site) = Resolved None) \<and>
   (probe_page 0 page = Nothing li \<longrightarrow> li = 0) \<and>
   ((\<forall>p\<in>set possiblePaths. goto b (targetUrl url p) = goto b' (targetUrl url p)) \<and>
      newPage_ok b = newPage_ok b' \<and> close_ok b = close_ok b' \<longrightarrow>
      scrapeWebsiteForEmail b url = scrapeWebsiteForEmail b' url) \<and>
   (fetch w (with_scheme site) = fetch w' (with_scheme site) \<and>
      select_mailto w = select_mailto w' \<and> decodeURIComponent w = decodeURIComponent w' \<longrightarrow>
      extractEmailFromWebsite w (Some site) = extractEmailFromWebsite w' (Some site))"
proof (intro conjI impI)
  assume "page_mailto_hrefs page = Resolved hrefs \<and>
      find (test_re emailRegex) (map mailto_target hrefs) = Some e"
  then show "probe_page 0 page = Found e" using probe_page_mailto by blast
next
  assume "page_mailto_hrefs page = Resolved hrefs \<and>
      find (test_re emailRegex) (map mailto_target hrefs) = None"
  then show "probe_page 0 page = scan_content page" using probe_page_no_mailto by blast
next
  assume "url \<noteq> [] \<and> newPage_ok b \<and> close_ok b \<and> goto b url = Resolved page \<and>
      page_mailto_hrefs page = Resolved hrefs \<and>
      find (test_re emailRegex) (map mailto_target hrefs) = Some e"
  then show "scrapeWebsiteForEmail b url = (Resolved (Some e), [url])"
    using scrape_root_mailto by blast
next
  assume "site \<noteq> [] \<and> fetch w (with_scheme site) = Resolved res \<and> res_ok res \<and>
      res_text res = Resolved html \<and> select_mailto w html = href # others \<and> href \<noteq> [] \<and>
      decodeURIComponent w (before_query (drop_mailto href)) = Resolved em \<and>
      test_re shapeRegex em"
  then show "extractEmailFromWebsite w (Some site) = Resolved (Some em)"
    using extract_first_mailto by blast
next
  assume "site \<noteq> [] \<and> fetch w (with_scheme site) = Resolved res \<and> res_ok res \<and>
      res_text res = Resolved html \<and> select_mailto w html = href # others \<and> href \<noteq> [] \<and>
      decodeURIComponent w (before_query (drop_mailto href)) = Resolved em \<and>
      \<not> test_re shapeRegex em"
  then show "extractEmailFromWebsite w (Some site) = Resolved (first_in_markup html)"
    using extract_first_not_shaped by blast
next
  assume "site \<noteq> [] \<and> fetch w (with_scheme site) = Resolved res \<and> res_ok res \<and>
      res_text res = Resolved html \<and> select_mailto w html = []"
  then show "extractEmailFromWebsite w (Some site) = Resolved (first_in_markup html)"
    using extract_no_mailto by blast
next
  assume "site \<noteq> [] \<and> fetch w (with_scheme site) = Resolved res \<and> res_ok res \<and>
      res_text res = Resolved html \<and> select_mailto w html = href # others \<and> href \<noteq> [] \<and>
      decodeURIComponent w (before_query (drop_mailto href)) = Rejected"
  then show "extractEmailFromWebsite w (Some site) = Resolved None"
    using extract_decode_throws by blast
next
  assume "probe_page 0 page = Nothing li"
  then show "li = 0" by (rule probe_page_nothing)
next
  assume "(\<forall>p\<in>set possiblePaths. goto b (targetUrl url p) = goto b' (targetUrl url p)) \<and>
      newPage_ok b = newPage_ok b' \<and> close_ok b = close_ok b'"
  then show "scrapeWebsiteForEmail b url = scrapeWebsiteForEmail b' url"
    using scrape_cong by blast
next
  assume "fetch w (with_scheme site) = fetch w' (with_scheme site) \<and>
      select_mailto w = select_mailto w' \<and> decodeURIComponent w = decodeURIComponent w'"
  then show "extractEmailFromWebsite w (Some site) = extractEmailFromWebsite w' (Some site)"
    using extract_cong by blast
qed

theorem mailto_preferred_witness:
  "probe_page 0 leeds_page = Found ''bookings@reiki-leeds.co.uk'' \<and>
   probe_page 0 form_page = Found ''press@reiki-leeds.co.uk'' \<and>
   scrapeWebsiteForEmail leeds_site ''https://reiki-leeds.co.uk/'' =
     (Resolved (Some ''bookings@reiki-leeds.co.uk''), [''https://reiki-leeds.co.uk/'']) \<and>
   extractEmailFromWebsite praxis_web (Some ''https://praxis.nl'') =
     Resolved (Some ''balie@praxis.nl'') \<and>
   extractEmailFromWebsite clinic_web (Some ''clinic.hu'') = Resolved (Some ''office@clinic.hu'') \<and>
   extractEmailFromWebsite leaflet_web (Some ''leaflet.nl'') = Resolved (Some ''z@b.nl'') \<and>
   first_in_markup promo_html = Some ''z@b.nl'' \<and>
   extractEmailFromWebsite leaflet_web (Some ''promo.nl'') = Resolved None \<and>
   scrapeWebsiteForEmail leeds_site ''https://reiki-leeds.co.uk/'' =
     scrapeWebsiteForEmail
       (leeds_site\<lparr>goto := (goto leeds_site)(''https://other.example'' := Resolved leeds_page)\<rparr>)
       ''https://reiki-leeds.co.uk/'' \<and>
   extractEmailFromWebsite praxis_web (Some ''https://praxis.nl'') =
     extractEmailFromWebsite
       (praxis_web\<lparr>fetch := (fetch praxis_web)(''http://clinic.hu'' := Rejected)\<rparr>)
       (Some ''https://praxis.nl'')"
proof -
  let ?url = "''https://reiki-leeds.co.uk/''"
  let ?hrefs = "[''mailto:bookings@reiki-leeds.co.uk'']"
  let ?e = "''bookings@reiki-leeds.co.uk''"
  let ?b' = "leeds_site\<lparr>goto := (goto leeds_site)(''https://other.example'' := Resolved leeds_page)\<rparr>"
  let ?purl = "''https://praxis.nl''"
  let ?res = "\<lparr>res_ok = True, res_text = Resolved praxis_html\<rparr>"
  let ?href = "''mailto:balie@praxis.nl?subject=Afspraak''"
  let ?w' = "praxis_web\<lparr>fetch := (fetch praxis_web)(''http://clinic.hu'' := Rejected)\<rparr>"
  let ?cres = "\<lparr>res_ok = True, res_text = Resolved clinic_html\<rparr>"
  let ?lres = "\<lparr>res_ok = True, res_text = Resolved leaflet_html\<rparr>"
  let ?pres = "\<lparr>res_ok = True, res_text = Resolved promo_html\<rparr>"
  note t = mailto_preferred[where page = leeds_page and hrefs = ?hrefs and e = ?e and url = ?url
      and b = leeds_site and b' = ?b']
  note f = mailto_preferred[where page = form_page and hrefs = "[''mailto:?subject=Reiki'']"]
  note u = mailto_preferred[where site = ?purl and w = praxis_web and res = ?res
      and html = praxis_html and href = ?href and others = "[]" and em = "''balie@praxis.nl''"
      and w' = ?w']
  note c = mailto_preferred[where site = "''clinic.hu''" and w = clinic_web and res = ?cres
      and html = clinic_html and href = "''mailto:info[at]clinic.hu''"
      and others = "[''mailto:dr.kovacs@clinic.hu'']" and em = "''info[at]clinic.hu''"]
  note l = mailto_preferred[where site = "''leaflet.nl''" and w = leaflet_web and res = ?lres
      and html = leaflet_html]
  note p = mailto_preferred[where site = "''promo.nl''" and w = leaflet_web and res = ?pres
      and html = promo_html and href = "''mailto:50%off@b.nl''" and others = "[]"]
  have a1: "page_mailto_hrefs leeds_page = Resolved ?hrefs" by (simp add: leeds_page_def)
  have a2: "find (test_re emailRegex) (map mailto_target ?hrefs) = Some ?e" by code_simp
  have f1: "page_mailto_hrefs form_page = Resolved [''mailto:?subject=Reiki'']"
    by (simp add: form_page_def)
  have f2: "find (test_re emailRegex) (map mailto_target [''mailto:?subject=Reiki'']) = None"
    by code_simp
  have f3: "scan_content form_page = Found ''press@reiki-leeds.co.uk''" by code_simp
  have b1: "?url \<noteq> []" by simp
  have b2: "newPage_ok leeds_site" and b3: "close_ok leeds_site"
    and b4: "goto leeds_site ?url = Resolved leeds_page"
    by (simp_all add: leeds_site_def)
  have c0: "?purl \<noteq> []" by simp
  have c1: "fetch praxis_web (with_scheme ?purl) = Resolved ?res" by code_simp
  have c2: "res_ok ?res" and c3: "res_text ?res = Resolved praxis_html" by simp_all
  have c4: "select_mailto praxis_web praxis_html = ?href # []" by (simp add: praxis_web_def)
  have c5: "?href \<noteq> []" by simp
  have c6: "decodeURIComponent praxis_web (before_query (drop_mailto ?href)) = Resolved ''balie@praxis.nl''"
    by code_simp
  have c7: "test_re shapeRegex ''balie@praxis.nl''" by code_simp
  have g0: "''clinic.hu'' \<noteq> []" by simp
  have g1: "fetch clinic_web (with_scheme ''clinic.hu'') = Resolved ?cres" by code_simp
  have g2: "res_ok ?cres" and g3: "res_text ?cres = Resolved clinic_html" by simp_all
  have g4: "select_mailto clinic_web clinic_html =
              ''mailto:info[at]clinic.hu'' # [''mailto:dr.kovacs@clinic.hu'']"
    by (simp add: clinic_web_def)
  have g5: "''mailto:info[at]clinic.hu'' \<noteq> []" by simp
  have g6: "decodeURIComponent clinic_web (before_query (drop_mailto ''mailto:info[at]clinic.hu'')) =
              Resolved ''info[at]clinic.hu''"
    by code_simp
  have g7: "\<not> test_re shapeRegex ''info[at]clinic.hu''" by code_simp
  have g8: "first_in_markup clinic_html = Some ''office@clinic.hu''" by code_simp
  have h0: "''leaflet.nl'' \<noteq> []" by simp
  have h1: "fetch leaflet_web (with_scheme ''leaflet.nl'') = Resolved ?lres" by code_simp
  have h2: "res_ok ?lres" and h3: "res_text ?lres = Resolved leaflet_html" by simp_all
  have h4: "select_mailto leaflet_web leaflet_html = []" by code_simp
  have h5: "first_in_markup leaflet_html = Some ''z@b.nl''" by code_simp
  have k0: "''promo.nl'' \<noteq> []" by simp
  have k1: "fetch leaflet_web (with_scheme ''promo.nl'') = Resolved ?pres" by code_simp
  have k2: "res_ok ?pres" and k3: "res_text ?pres = Resolved promo_html" by simp_all
  have k4: "select_mailto leaflet_web promo_html = ''mailto:50%off@b.nl'' # []"
    by (simp add: leaflet_web_def)
  have k5: "''mailto:50%off@b.nl'' \<noteq> []" by simp
  have k6: "decodeURIComponent leaflet_web (before_query (drop_mailto ''mailto:50%off@b.nl'')) = Rejected"
    by code_simp
  have k7: "first_in_markup promo_html = Some ''z@b.nl''" by code_simp
  have d1: "\<forall>p\<in>set possiblePaths. goto leeds_site (targetUrl ?url p) = goto ?b' (targetUrl ?url p)"
    by (simp add: possiblePaths_def targetUrl_def strip_slash_def)
  have d2: "newPage_ok leeds_site = newPage_ok ?b'" and d3: "close_ok leeds_site = close_ok ?b'"
    by simp_all
  have e1: "fetch praxis_web (with_scheme ?purl) = fetch ?w' (with_scheme ?purl)" by code_simp
  have e2: "select_mailto praxis_web = select_mailto ?w'"
    and e3: "decodeURIComponent praxis_web = decodeURIComponent ?w'" by simp_all
  note t2 = t[THEN conjunct2] and f2' = f[THEN conjunct2]
  note u3 = u[THEN conjunct2, THEN conjunct2, THEN conjunct2]
  note c4' = c[THEN conjunct2, THEN conjunct2, THEN conjunct2, THEN conjunct2]
  note l5 = l[THEN conjunct2, THEN conjunct2, THEN conjunct2, THEN conjunct2, THEN conjunct2]
  note p6 = p[THEN conjunct2, THEN conjunct2, THEN conjunct2, THEN conjunct2, THEN conjunct2,
      THEN conjunct2]
  note t8 = t[THEN conjunct2, THEN conjunct2, THEN conjunct2, THEN conjunct2, THEN conjunct2,
      THEN conjunct2, THEN conjunct2, THEN conjunct2]
  note u9 = u[THEN conjunct2, THEN conjunct2, THEN conjunct2, THEN conjunct2, THEN conjunct2,
      THEN conjunct2, THEN conjunct2, THEN conjunct2, THEN conjunct2]
  have r1: "probe_page 0 leeds_page = Found ?e"
    by (rule mp[OF t[THEN conjunct1]]) (intro conjI a1 a2)
  have "probe_page 0 form_page = scan_content form_page"
    by (rule mp[OF f2'[THEN conjunct1]]) (intro conjI f1 f2)
  then have r2: "probe_page 0 form_page = Found ''press@reiki-leeds.co.uk''"
    by (rule trans) (rule f3)
  have r3: "scrapeWebsiteForEmail leeds_site ?url = (Resolved (Some ?e), [?url])"
    by (rule mp[OF t2[THEN conjunct2, THEN conjunct1]]) (intro conjI b1 b2 b3 b4 a1 a2)
  have r4: "extractEmailFromWebsite praxis_web (Some ?purl) = Resolved (Some ''balie@praxis.nl'')"
    by (rule mp[OF u3[THEN conjunct1]]) (intro conjI c0 c1 c2 c3 c4 c5 c6 c7)
  have "extractEmailFromWebsite clinic_web (Some ''clinic.hu'') = Resolved (first_in_markup clinic_html)"
    by (rule mp[OF c4'[THEN conjunct1]]) (intro conjI g0 g1 g2 g3 g4 g5 g6 g7)
  then have r5: "extractEmailFromWebsite clinic_web (Some ''clinic.hu'') = Resolved (Some ''office@clinic.hu'')"
    by (rule trans) (rule arg_cong[OF g8])
  have "extractEmailFromWebsite leaflet_web (Some ''leaflet.nl'') = Resolved (first_in_markup leaflet_html)"
    by (rule mp[OF l5[THEN conjunct1]]) (intro conjI h0 h1 h2 h3 h4)
  then have r6: "extractEmailFromWebsite leaflet_web (Some ''leaflet.nl'') = Resolved (Some ''z@b.nl'')"
    by (rule trans) (rule arg_cong[OF h5])
  have r7: "extractEmailFromWebsite leaflet_web (Some ''promo.nl'') = Resolved None"
    by (rule mp[OF p6[THEN conjunct1]]) (intro conjI k0 k1 k2 k3 k4 k5 k6)
  have r9: "scrapeWebsiteForEmail leeds_site ?url = scrapeWebsiteForEmail ?b' ?url"
    by (rule mp[OF t8[THEN conjunct1]]) (intro conjI d1 d2 d3)
  have r10: "extractEmailFromWebsite praxis_web (Some ?purl) = extractEmailFromWebsite ?w' (Some ?purl)"
    by (rule mp[OF u9]) (intro conjI e1 e2 e3)
  from r1 r2 r3 r4 r5 r6 k7 r7 r9 r10 show ?thesis by (intro conjI)
qed


section \<open>Claim C6: placeholder addresses\<close>

text \<open>Pages of the examples, each showing placeholder addresses only.\<close>

definition template_html :: string where
  "template_html = ''<footer>Contact: info@example.com</footer>''"

definition template_web :: web where
  "template_web =
     \<lparr>fetch = (\<lambda>u. if u = ''http://fogorvos-budapest.hu''
                  then Resolved \<lparr>res_ok = True, res_text = Resolved template_html\<rparr>
                  else Rejected),
      select_mailto = (\<lambda>html. []),
      decodeURIComponent = plain_decode\<rparr>"

definition w3_get :: "string \<Rightarrow> axios_data promise" where
  "w3_get u = (if u = ''https://fogaszat-szeged.hu''
               then Resolved (Text ''<address>site-comments@w3.org</address>'') else Rejected)"

definition example_get :: "string \<Rightarrow> axios_data promise" where
  "example_get u = (if u = ''https://fogaszat-pecs.hu''
               then Resolved (Text ''<p>you@example.com</p>'') else Rejected)"

definition mailto_template_page :: rendered_page where
  "mailto_template_page =
     \<lparr>page_mailto_hrefs = Resolved [''mailto:info@example.com''],
      page_content = Resolved ''<a href=mailto:info@example.com>Mail us</a>''\<rparr>"

definition template_page :: rendered_page where
  "template_page =
     \<lparr>page_mailto_hrefs = Resolved [],
      page_content = Resolved ''<p>you@example.com, site-comments@w3.org</p>''\<rparr>"

definition template_site :: browser where
  "template_site = \<lparr>newPage_ok = True, goto = (\<lambda>u. Resolved template_page), close_ok = True\<rparr>"

text \<open>
  A page that shows placeholder addresses only: no mailto target holds an e-mail-shaped
  string, and every e-mail-shaped string of the markup contains \<^verbatim>\<open>example.com\<close> or \<^verbatim>\<open>w3.org\<close>.
\<close>

definition placeholder_page :: "rendered_page \<Rightarrow> bool" where
  "placeholder_page page =
     (case page_mailto_hrefs page of
        Rejected \<Rightarrow> False
      | Resolved hrefs \<Rightarrow>
          list_all (\<lambda>h. \<not> test_re emailRegex (mailto_target h)) hrefs \<and>
          (case page_content page of
             Rejected \<Rightarrow> False
           | Resolved c \<Rightarrow>
               list_all (\<lambda>m. js_includes m ''example.com'' \<or> js_includes m ''w3.org'')
                 (match_all emailRegex c)))"

text \<open>
  Claim C6 as stated fails in each variant: the API-backed extractor filters nothing and
  returns \<^verbatim>\<open>info@example.com\<close>; the Hungarian script filters \<^verbatim>\<open>example.com\<close> only and returns an
  address on \<^verbatim>\<open>w3.org\<close>; the Reiki script filters the matches of the markup, not the mailto
  targets, and returns the placeholder of a mailto link.
\<close>

theorem placeholder_returned_counterexample:
  "match_all htmlEmailRegex template_html = [''info@example.com''] \<and>
   extractEmailFromWebsite template_web (Some ''fogorvos-budapest.hu'') =
     Resolved (Some ''info@example.com'') \<and>
   scrapeWebsiteForEmail_axios w3_get ''https://fogaszat-szeged.hu'' =
     Resolved (Some ''site-comments@w3.org'') \<and>
   probe_page 0 mailto_template_page = Found ''info@example.com''"
  by code_simp

lemma js_match_eq:
  "js_match r s = (if match_all r s = [] then None else Some (match_all r s))"
  by (simp add: js_match_def split: list.splits)

lemma find_None_list_all: "find P xs = None \<longleftrightarrow> list_all (\<lambda>x. \<not> P x) xs"
  by (induction xs) auto

lemma find_test_none:
  assumes "list_all (\<lambda>e. \<not> test_re r e) es"
  shows "find_test r 0 es = (None, 0)"
proof -
  from assms have "find (test_re r) es = None" by (simp add: find_None_list_all)
  then have "fst (find_test r 0 es) = None" by (simp add: find_test_zero)
  then obtain li where li: "find_test r 0 es = (None, li)"
    by (cases "find_test r 0 es") simp
  then have "li = 0" by (rule find_test_none_zero)
  with li show ?thesis by simp
qed

lemma placeholder_page_nothing:
  assumes "placeholder_page page"
  shows "probe_page 0 page = Nothing 0"
proof -
  from assms obtain hrefs c where h: "page_mailto_hrefs page = Resolved hrefs"
    and nm: "list_all (\<lambda>h. \<not> test_re emailRegex (mailto_target h)) hrefs"
    and c: "page_content page = Resolved c"
    and ph: "list_all (\<lambda>m. js_includes m ''example.com'' \<or> js_includes m ''w3.org'')
               (match_all emailRegex c)"
    by (auto simp: placeholder_page_def split: promise.splits)
  from ph have "find (\<lambda>e. \<not> js_includes e ''example.com'' \<and> \<not> js_includes e ''w3.org'')
                  (match_all emailRegex c) = None"
    by (simp add: find_None_list_all)
  with c have sc: "scan_content page = Nothing 0"
    by (simp add: scan_content_def js_match_eq)
  from nm have "list_all (\<lambda>e. \<not> test_re emailRegex e) (map mailto_target hrefs)"
    by (simp add: list_all_iff)
  then have "find_test emailRegex 0 (map mailto_target hrefs) = (None, 0)"
    by (rule find_test_none)
  with h sc show ?thesis by (simp add: probe_page_def)
qed

lemma axios_placeholder:
  assumes "axios_get url = Resolved (Text d)"
    and "list_all (\<lambda>m. js_includes m ''example.com'') (match_all emailRegex d)"
  shows "scrapeWebsiteForEmail_axios axios_get url = Resolved None"
proof -
  from assms(2) have "find (\<lambda>email. \<not> js_includes email ''example.com'') (match_all emailRegex d) = None"
    by (simp add: find_None_list_all)
  with assms(1) show ?thesis
    by (simp add: scrapeWebsiteForEmail_axios_def axios_try_def js_match_eq)
qed

text \<open>
  Claim C6, amended. In the Reiki script a page none of whose mailto targets holds an
  e-mail-shaped string, and all of whose e-mail-shaped strings in the markup contain
  \<^verbatim>\<open>example.com\<close> or \<^verbatim>\<open>w3.org\<close>, shows nothing (first conjunct), and the extractor returns
  none after all five paths when every page is such a page (second). In the Hungarian script
  the extractor returns none when every e-mail-shaped string of the body contains
  \<^verbatim>\<open>example.com\<close> (third). Nothing is said of the API-backed extractor, which has no filter.
\<close>

theorem placeholders_skipped:
  "(placeholder_page page \<longrightarrow> probe_page 0 page = Nothing 0) \<and>
   (url \<noteq> [] \<and> newPage_ok b \<and> close_ok b \<and>
      (\<forall>p\<in>set possiblePaths. \<exists>page. goto b (targetUrl url p) = Resolved page \<and>
         placeholder_page page) \<longrightarrow>
      scrapeWebsiteForEmail b url = (Resolved None, map (targetUrl url) possiblePaths)) \<and>
   (axios_get site = Resolved (Text d) \<and>
      list_all (\<lambda>m. js_includes m ''example.com'') (match_all emailRegex d) \<longrightarrow>
      scrapeWebsiteForEmail_axios axios_get site = Resolved None)"
proof (intro conjI impI)
  assume "placeholder_page page"
  then show "probe_page 0 page = Nothing 0" by (rule placeholder_page_nothing)
next
  assume a: "url \<noteq> [] \<and> newPage_ok b \<and> close_ok b \<and>
      (\<forall>p\<in>set possiblePaths. \<exists>page. goto b (targetUrl url p) = Resolved page \<and>
         placeholder_page page)"
  then have "\<forall>p\<in>set possiblePaths. \<exists>page. goto b (targetUrl url p) = Resolved page \<and>
         probe_page 0 page = Nothing 0"
    using placeholder_page_nothing by blast
  then have "probe_paths b url 0 possiblePaths = (None, map (targetUrl url) possiblePaths)"
    by (rule probe_paths_exhausted)
  with a show "scrapeWebsiteForEmail b url = (Resolved None, map (targetUrl url) possiblePaths)"
    by (simp add: scrapeWebsiteForEmail_def)
next
  assume "axios_get site = Resolved (Text d) \<and>
      list_all (\<lambda>m. js_includes m ''example.com'') (match_all emailRegex d)"
  then show "scrapeWebsiteForEmail_axios axios_get site = Resolved None"
    using axios_placeholder by blast
qed

theorem placeholders_skipped_witness:
  "probe_page 0 template_page = Nothing 0 \<and>
   scrapeWebsiteForEmail template_site ''https://reiki-bath.co.uk'' =
     (Resolved None, map (targetUrl ''https://reiki-bath.co.uk'') possiblePaths) \<and>
   scrapeWebsiteForEmail_axios example_get ''https://fogaszat-pecs.hu'' = Resolved None"
proof -
  let ?url = "''https://reiki-bath.co.uk''"
  let ?site = "''https://fogaszat-pecs.hu''"
  let ?d = "''<p>you@example.com</p>''"
  note t = placeholders_skipped[of template_page ?url template_site example_get ?site ?d]
  have a: "placeholder_page template_page" by code_simp
  have b1: "?url \<noteq> []" by simp
  have b2: "newPage_ok template_site" and b3: "close_ok template_site"
    by (simp_all add: template_site_def)
  have b4: "\<forall>p\<in>set possiblePaths. \<exists>page. goto template_site (targetUrl ?url p) = Resolved page
              \<and> placeholder_page page"
    using a by (simp add: template_site_def)
  have c1: "example_get ?site = Resolved (Text ?d)" by (simp add: example_get_def)
  have c2: "list_all (\<lambda>m. js_includes m ''example.com'') (match_all emailRegex ?d)" by code_simp
  have r1: "probe_page 0 template_page = Nothing 0"
    by (rule mp[OF t[THEN conjunct1]]) (rule a)
  have r2: "scrapeWebsiteForEmail template_site ?url = (Resolved None, map (targetUrl ?url) possiblePaths)"
    by (rule mp[OF t[THEN conjunct2, THEN conjunct1]]) (intro conjI b1 b2 b3 b4)
  have r3: "scrapeWebsiteForEmail_axios example_get ?site = Resolved None"
    by (rule mp[OF t[THEN conjunct2, THEN conjunct2]]) (intro conjI c1 c2)
  from r1 r2 r3 show ?thesis by (intro conjI)
qed

section \<open>Claim C8: the extractor returns none instead of raising\<close>

text \<open>
  Sessions of the examples: a tab that has crashed (navigation and closing both reject), a
  site whose pages show no address, and a network that is down.
\<close>

definition crashed_tab :: browser where
  "crashed_tab = \<lparr>newPage_ok = True, goto = (\<lambda>u. Rejected), close_ok = False\<rparr>"

definition blank_page :: rendered_page where
  "blank_page = \<lparr>page_mailto_hrefs = Resolved [], page_content = Resolved ''<h1>Reiki York</h1>''\<rparr>"

definition blank_site :: browser where
  "blank_site = \<lparr>newPage_ok = True, goto = (\<lambda>u. Resolved blank_page), close_ok = True\<rparr>"

definition offline_web :: web where
  "offline_web =
     \<lparr>fetch = (\<lambda>u. Rejected), select_mailto = (\<lambda>html. []), decodeURIComponent = plain_decode\<rparr>"

text \<open>
  Claim C8 fails for the browser-backed extractor of the Reiki script. The navigation of a
  crashed tab rejects; the \<^verbatim>\<open>catch\<close> block takes the rejection and returns \<^verbatim>\<open>null\<close>, as the claim
  says; but \<^verbatim>\<open>await page.close()\<close> stands unguarded in the \<^verbatim>\<open>finally\<close> block, and its rejection
  replaces the \<^verbatim>\<open>null\<close>: the caller gets a rejection. Were the call guarded (as it is in the
  Hungarian script), the same input would give none.
\<close>

theorem crashed_tab_rejection_reaches_caller:
  "goto crashed_tab ''https://reiki-york.co.uk'' = Rejected \<and>
   \<not> close_ok crashed_tab \<and>
   probe_paths crashed_tab ''https://reiki-york.co.uk'' 0 possiblePaths =
     (None, [''https://reiki-york.co.uk'']) \<and>
   scrapeWebsiteForEmail crashed_tab ''https://reiki-york.co.uk'' =
     (Rejected, [''https://reiki-york.co.uk'']) \<and>
   scrapeWebsiteForEmail (crashed_tab\<lparr>close_ok := True\<rparr>) ''https://reiki-york.co.uk'' =
     (Resolved None, [''https://reiki-york.co.uk''])"
  by code_simp

subsection \<open>What the extractors do otherwise\<close>

lemma extract_never_rejects: "extractEmailFromWebsite w website \<noteq> Rejected"
  by (simp add: extractEmailFromWebsite_def split: option.splits promise.splits)

lemma axios_never_rejects: "scrapeWebsiteForEmail_axios axios_get site \<noteq> Rejected"
  by (simp add: scrapeWebsiteForEmail_axios_def split: promise.splits)

lemma scrape_open_close:
  assumes "newPage_ok b" and "close_ok b"
  shows "fst (scrapeWebsiteForEmail b url) \<noteq> Rejected"
  using assms by (simp add: scrapeWebsiteForEmail_def split: prod.splits)

lemma scrape_rejected_goto:
  assumes "newPage_ok b" and "close_ok b"
    and "u \<in> set (snd (scrapeWebsiteForEmail b url))" and "goto b u = Rejected"
  shows "fst (scrapeWebsiteForEmail b url) = Resolved None"
proof (cases "url = []")
  case True
  then show ?thesis by (simp add: scrapeWebsiteForEmail_def)
next
  case False
  with assms(1-3) have "u \<in> set (snd (probe_paths b url 0 possiblePaths))"
    by (simp add: scrapeWebsiteForEmail_def split: prod.splits)
  then have "fst (probe_paths b url 0 possiblePaths) = None"
    using assms(4) by (rule probe_paths_rejected)
  with False assms(1,2) show ?thesis
    by (auto simp: scrapeWebsiteForEmail_def split: prod.splits)
qed

lemma scrape_exhausted:
  assumes "newPage_ok b" and "close_ok b"
    and "\<forall>p\<in>set possiblePaths. \<exists>page. goto b (targetUrl url p) = Resolved page \<and>
           probe_page 0 page = Nothing 0"
  shows "fst (scrapeWebsiteForEmail b url) = Resolved None"
proof -
  from assms(3) have "probe_paths b url 0 possiblePaths = (None, map (targetUrl url) possiblePaths)"
    by (rule probe_paths_exhausted)
  with assms(1,2) show ?thesis by (simp add: scrapeWebsiteForEmail_def)
qed

text \<open>
  With an empty URL every extractor returns none, the browser-backed one before any
  navigation. The two HTTP-backed extractors never raise, and return none when the request
  rejects. The browser-backed extractor does not raise when the tab opens and closes; then a
  rejection at any URL it navigated to gives none, and so do five pages that show nothing, and
  a root page that cannot be read.
\<close>

lemma scrape_unreadable:
  assumes "url \<noteq> []" and "newPage_ok b" and "close_ok b" and "goto b url = Resolved page"
    and "page_mailto_hrefs page = Rejected \<or>
         (page_mailto_hrefs page = Resolved [] \<and> page_content page = Rejected)"
  shows "scrapeWebsiteForEmail b url = (Resolved None, [url])"
proof -
  from assms(5) have "probe_page 0 page = Failed"
    by (auto simp: probe_page_def scan_content_def)
  with assms(1-4) show ?thesis
    by (simp add: scrapeWebsiteForEmail_def possiblePaths_def targetUrl_def)
qed

lemma extractor_returns_none:
  "scrapeWebsiteForEmail b [] = (Resolved None, []) \<and>
   extractEmailFromWebsite w None = Resolved None \<and>
   extractEmailFromWebsite w (Some []) = Resolved None \<and>
   scrapeWebsiteForEmail_axios axios_get [] = Resolved None \<and>
   extractEmailFromWebsite w website \<noteq> Rejected \<and>
   scrapeWebsiteForEmail_axios axios_get site \<noteq> Rejected \<and>
   (fetch w (with_scheme site) = Rejected \<longrightarrow>
      extractEmailFromWebsite w (Some site) = Resolved None) \<and>
   (axios_get site = Rejected \<longrightarrow> scrapeWebsiteForEmail_axios axios_get site = Resolved None) \<and>
   (newPage_ok b \<and> close_ok b \<longrightarrow> fst (scrapeWebsiteForEmail b url) \<noteq> Rejected) \<and>
   (newPage_ok b \<and> close_ok b \<and> u \<in> set (snd (scrapeWebsiteForEmail b url)) \<and>
      goto b u = Rejected \<longrightarrow>
      fst (scrapeWebsiteForEmail b url) = Resolved None) \<and>
   (newPage_ok b \<and> close_ok b \<and>
      (\<forall>p\<in>set possiblePaths. \<exists>page. goto b (targetUrl url p) = Resolved page \<and>
         probe_page 0 page = Nothing 0) \<longrightarrow>
      fst (scrapeWebsiteForEmail b url) = Resolved None)"
proof (intro conjI impI)
  show "scrapeWebsiteForEmail b [] = (Resolved None, [])"
    by (simp add: scrapeWebsiteForEmail_def)
  show "extractEmailFromWebsite w None = Resolved None"
    and "extractEmailFromWebsite w (Some []) = Resolved None"
    by (simp_all add: extractEmailFromWebsite_def)
  show "scrapeWebsiteForEmail_axios axios_get [] = Resolved None"
    by (simp add: scrapeWebsiteForEmail_axios_def)
  show "extractEmailFromWebsite w website \<noteq> Rejected" by (rule extract_never_rejects)
  show "scrapeWebsiteForEmail_axios axios_get site \<noteq> Rejected" by (rule axios_never_rejects)
next
  assume "fetch w (with_scheme site) = Rejected"
  then show "extractEmailFromWebsite w (Some site) = Resolved None"
    by (simp add: extractEmailFromWebsite_def extract_try_def)
next
  assume "axios_get site = Rejected"
  then show "scrapeWebsiteForEmail_axios axios_get site = Resolved None"
    by (simp add: scrapeWebsiteForEmail_axios_def axios_try_def)
next
  assume "newPage_ok b \<and> close_ok b"
  then show "fst (scrapeWebsiteForEmail b url) \<noteq> Rejected" using scrape_open_close by blast
next
  assume "newPage_ok b \<and> close_ok b \<and> u \<in> set (snd (scrapeWebsiteForEmail b url)) \<and>
      goto b u = Rejected"
  then show "fst (scrapeWebsiteForEmail b url) = Resolved None"
    using scrape_rejected_goto by blast
next
  assume "newPage_ok b \<and> close_ok b \<and>
      (\<forall>p\<in>set possiblePaths. \<exists>page. goto b (targetUrl url p) = Resolved page \<and>
         probe_page 0 page = Nothing 0)"
  then show "fst (scrapeWebsiteForEmail b url) = Resolved None"
    using scrape_exhausted by blast
qed

section \<open>The API-backed script: export\<close>

text \<open>
  A record of \<^verbatim>\<open>details\<close>, as the mapper returns it. \<open>None\<close> is \<^verbatim>\<open>null\<close>.
\<close>

record detail =
  d_place_id :: string
  d_name :: "string option"
  d_address :: "string option"
  d_phone :: "string option"
  d_website :: "string option"
  d_email :: "string option"

definition dq :: char where
  "dq = CHR 0x22"

text \<open>\<^verbatim>\<open>(value || '')\<close>: \<^verbatim>\<open>null\<close> becomes the empty string.\<close>

definition or_empty :: "string option \<Rightarrow> string" where
  "or_empty v = (case v of None \<Rightarrow> [] | Some s \<Rightarrow> s)"

text \<open>\<^verbatim>\<open>`"${s.replace(/"/g, '""')}"`\<close>: every double quote is doubled, the whole is quoted.\<close>

definition double_quotes :: "string \<Rightarrow> string" where
  "double_quotes s = concat (map (\<lambda>c. if c = dq then [dq, dq] else [c]) s)"

definition csv_field :: "string \<Rightarrow> string" where
  "csv_field s = dq # double_quotes s @ [dq]"

text \<open>\<^verbatim>\<open>array.join(sep)\<close>\<close>

fun join :: "string \<Rightarrow> string list \<Rightarrow> string" where
  "join sep [] = []"
| "join sep [x] = x"
| "join sep (x # y # ys) = x @ sep @ join sep (y # ys)"

definition detail_fields :: "detail \<Rightarrow> string list" where
  "detail_fields d =
     [d_place_id d, or_empty (d_name d), or_empty (d_address d), or_empty (d_phone d),
      or_empty (d_website d), or_empty (d_email d)]"

definition csv_header :: "string list" where
  "csv_header = [''place_id'', ''name'', ''address'', ''phone'', ''website'', ''email'']"

definition csv_row :: "detail \<Rightarrow> string" where
  "csv_row d = join '','' (map csv_field (detail_fields d))"

definition csv_of :: "detail list \<Rightarrow> string" where
  "csv_of details = join [CHR 0x0A] (join '','' csv_header # map csv_row details)"

subsection \<open>Reading a CSV text back\<close>

text \<open>
  The reader every CSV consumer implements (RFC 4180): fields are separated by commas and
  records by line feeds; a field that starts with a double quote runs to the next double
  quote that is not doubled, and may hold commas, line feeds and doubled double quotes.
  \<open>None\<close> is a malformed text.
\<close>

datatype csv_state = FieldStart | Unquoted | Quoted | QuoteSeen

fun csv_run ::
  "csv_state \<Rightarrow> string \<Rightarrow> string list \<Rightarrow> string list list \<Rightarrow> string \<Rightarrow> string list list option" where
  "csv_run st f row rows [] =
     (if st = Quoted then None
      else if st = FieldStart \<and> row = [] then Some rows
      else Some (rows @ [row @ [f]]))"
| "csv_run FieldStart f row rows (c # cs) =
     (if c = dq then csv_run Quoted [] row rows cs
      else if c = CHR '','' then csv_run FieldStart [] (row @ [[]]) rows cs
      else if c = CHR 0x0A then csv_run FieldStart [] [] (rows @ [row @ [[]]]) cs
      else csv_run Unquoted [c] row rows cs)"
| "csv_run Unquoted f row rows (c # cs) =
     (if c = dq then None
      else if c = CHR '','' then csv_run FieldStart [] (row @ [f]) rows cs
      else if c = CHR 0x0A then csv_run FieldStart [] [] (rows @ [row @ [f]]) cs
      else csv_run Unquoted (f @ [c]) row rows cs)"
| "csv_run Quoted f row rows (c # cs) =
     (if c = dq then csv_run QuoteSeen f row rows cs
      else csv_run Quoted (f @ [c]) row rows cs)"
| "csv_run QuoteSeen f row rows (c # cs) =
     (if c = dq then csv_run Quoted (f @ [dq]) row rows cs
      else if c = CHR '','' then csv_run FieldStart [] (row @ [f]) rows cs
      else if c = CHR 0x0A then csv_run FieldStart [] [] (rows @ [row @ [f]]) cs
      else None)"

definition parse_csv :: "string \<Rightarrow> string list list option" where
  "parse_csv s = csv_run FieldStart [] [] [] s"

lemma quoted_body:
  "csv_run Quoted f row rows (double_quotes s @ dq # rest) = csv_run QuoteSeen (f @ s) row rows rest"
  by (induction s arbitrary: f) (simp_all add: double_quotes_def)

lemma quoted_field:
  "csv_run FieldStart f row rows (csv_field s @ rest) = csv_run QuoteSeen s row rows rest"
  using quoted_body[of "[]" row rows s rest] by (simp add: csv_field_def)

lemma quoted_fields:
  "fs \<noteq> [] \<Longrightarrow>
   csv_run FieldStart f row rows (join '','' (map csv_field fs) @ rest) =
     csv_run QuoteSeen (last fs) (row @ butlast fs) rows rest"
proof (induction fs arbitrary: f row)
  case Nil
  then show ?case by simp
next
  case (Cons x fs)
  show ?case
  proof (cases fs)
    case Nil
    then show ?thesis using quoted_field[of f row rows x rest] by simp
  next
    case (Cons y ys)
    have "csv_run FieldStart f row rows (join '','' (map csv_field (x # fs)) @ rest) =
          csv_run FieldStart f row rows (csv_field x @ (CHR '','' # join '','' (map csv_field fs) @ rest))"
      using Cons by simp
    also have "\<dots> = csv_run QuoteSeen x row rows (CHR '','' # join '','' (map csv_field fs) @ rest)"
      by (rule quoted_field)
    also have "\<dots> = csv_run FieldStart [] (row @ [x]) rows (join '','' (map csv_field fs) @ rest)"
      by (simp add: dq_def)
    also have "\<dots> = csv_run QuoteSeen (last fs) ((row @ [x]) @ butlast fs) rows rest"
      using Cons Cons.IH by simp
    finally show ?thesis using Cons by simp
  qed
qed

lemma detail_row:
  "csv_run FieldStart f [] rows (csv_row d @ rest) =
     csv_run QuoteSeen (or_empty (d_email d))
       [d_place_id d, or_empty (d_name d), or_empty (d_address d), or_empty (d_phone d),
        or_empty (d_website d)] rows rest"
  using quoted_fields[of "detail_fields d" f "[]" rows rest]
  by (simp add: csv_row_def detail_fields_def)

lemma detail_rows:
  "ds \<noteq> [] \<Longrightarrow>
   csv_run FieldStart f [] rows (join [CHR 0x0A] (map csv_row ds)) =
     Some (rows @ map detail_fields ds)"
proof (induction ds arbitrary: f rows)
  case Nil
  then show ?case by simp
next
  case (Cons d ds)
  show ?case
  proof (cases ds)
    case Nil
    then show ?thesis using detail_row[of f rows d "[]"] by (simp add: detail_fields_def)
  next
    case (Cons e es)
    have "csv_run FieldStart f [] rows (join [CHR 0x0A] (map csv_row (d # ds))) =
          csv_run FieldStart f [] rows (csv_row d @ (CHR 0x0A # join [CHR 0x0A] (map csv_row ds)))"
      using Cons by simp
    also have "\<dots> = csv_run FieldStart [] [] (rows @ [detail_fields d]) (join [CHR 0x0A] (map csv_row ds))"
      by (simp add: detail_row detail_fields_def dq_def)
    also have "\<dots> = Some ((rows @ [detail_fields d]) @ map detail_fields ds)"
      using Cons Cons.IH by simp
    finally show ?thesis by simp
  qed
qed

lemma header_line:
  "csv_run FieldStart [] [] [] (join '','' csv_header @ CHR 0x0A # rest) =
     csv_run FieldStart [] [] [csv_header] rest"
  by (simp add: csv_header_def dq_def)

lemma header_only: "csv_run FieldStart [] [] [] (join '','' csv_header) = Some [csv_header]"
  by (simp add: csv_header_def dq_def)

lemma csv_read_back:
  "parse_csv (csv_of details) = Some (csv_header # map detail_fields details)"
proof (cases details)
  case Nil
  then show ?thesis by (simp add: parse_csv_def csv_of_def header_only)
next
  case (Cons d ds)
  then have "csv_of details = join '','' csv_header @ CHR 0x0A # join [CHR 0x0A] (map csv_row details)"
    by (simp add: csv_of_def)
  then have "parse_csv (csv_of details) =
             csv_run FieldStart [] [] [csv_header] (join [CHR 0x0A] (map csv_row details))"
    by (simp add: parse_csv_def header_line)
  also have "\<dots> = Some ([csv_header] @ map detail_fields details)"
    using Cons by (intro detail_rows) simp
  finally show ?thesis by simp
qed

text \<open>
  Claim C9. Writing any list of records as the script writes its CSV file and reading the
  text back gives the six column names and then, record by record and in the order of the
  columns, the values of \<^verbatim>\<open>place_id\<close>, \<^verbatim>\<open>name\<close>, \<^verbatim>\<open>address\<close>, \<^verbatim>\<open>phone\<close>, \<^verbatim>\<open>website\<close> and \<^verbatim>\<open>email\<close> of
  the record, whatever characters they hold (commas, double quotes, line feeds). A field that
  is \<^verbatim>\<open>null\<close> comes back as the empty string. (The file of this script has no index column.)
\<close>

theorem csv_round_trip:
  "parse_csv (csv_of details) =
     Some ([''place_id'', ''name'', ''address'', ''phone'', ''website'', ''email''] #
           map (\<lambda>d. [d_place_id d,
                      (case d_name d of None \<Rightarrow> [] | Some v \<Rightarrow> v),
                      (case d_address d of None \<Rightarrow> [] | Some v \<Rightarrow> v),
                      (case d_phone d of None \<Rightarrow> [] | Some v \<Rightarrow> v),
                      (case d_website d of None \<Rightarrow> [] | Some v \<Rightarrow> v),
                      (case d_email d of None \<Rightarrow> [] | Some v \<Rightarrow> v)]) details)"
proof -
  have "map detail_fields details =
        map (\<lambda>d. [d_place_id d,
                      (case d_name d of None \<Rightarrow> [] | Some v \<Rightarrow> v),
                      (case d_address d of None \<Rightarrow> [] | Some v \<Rightarrow> v),
                      (case d_phone d of None \<Rightarrow> [] | Some v \<Rightarrow> v),
                      (case d_website d of None \<Rightarrow> [] | Some v \<Rightarrow> v),
                      (case d_email d of None \<Rightarrow> [] | Some v \<Rightarrow> v)]) details"
    by (simp add: detail_fields_def or_empty_def)
  then show ?thesis
    using csv_read_back[of details] by (simp add: csv_header_def)
qed

section \<open>The API-backed script: \<^verbatim>\<open>main\<close>\<close>

subsection \<open>The Places API\<close>

text \<open>A result of a text search, a reply to a text search, and a reply to a details request.\<close>

record raw_place =
  r_place_id :: string
  r_name :: "string option"
  r_formatted_address :: "string option"

record search_reply =
  sr_status :: string
  sr_results :: "raw_place list option"
  sr_next_page_token :: "string option"

record place_details =
  pd_name :: "string option"
  pd_formatted_address :: "string option"
  pd_formatted_phone_number :: "string option"
  pd_website :: "string option"

record details_reply =
  dr_status :: string
  dr_result :: "place_details option"

text \<open>
  The service: what \<^verbatim>\<open>fetch\<close> and \<^verbatim>\<open>res.json()\<close> give for a search by location, for a search by
  page token, and for the details of a place at its first, second, ... request (a rejection is
  a network error or a body that is not JSON).
\<close>

record places_api =
  search_location :: "string \<Rightarrow> search_reply promise"
  search_pagetoken :: "string \<Rightarrow> search_reply promise"
  details_request :: "string \<Rightarrow> nat \<Rightarrow> details_reply promise"

datatype search_arg = ByLocation string | ByPagetoken string

definition textSearch :: "places_api \<Rightarrow> search_arg \<Rightarrow> search_reply promise" where
  "textSearch api arg =
     (case (case arg of ByLocation l \<Rightarrow> search_location api l
                      | ByPagetoken t \<Rightarrow> search_pagetoken api t) of
        Rejected \<Rightarrow> Rejected
      | Resolved json \<Rightarrow>
          if sr_status json = ''REQUEST_DENIED'' then Rejected else Resolved json)"

definition getPlaceDetails :: "places_api \<Rightarrow> string \<Rightarrow> nat \<Rightarrow> place_details option promise" where
  "getPlaceDetails api place_id n =
     (case details_request api place_id n of
        Rejected \<Rightarrow> Rejected
      | Resolved json \<Rightarrow> if dr_status json \<noteq> ''OK'' then Resolved None else Resolved (dr_result json))"

text \<open>
  \<^verbatim>\<open>pRetry(f, {retries: n})\<close>: \<open>f\<close> is called until it resolves, at most \<open>n + 1\<close> times;
  \<open>f k\<close> is the outcome of call number \<open>k\<close>.
\<close>

fun pRetry_from :: "nat \<Rightarrow> nat \<Rightarrow> (nat \<Rightarrow> 'a promise) \<Rightarrow> 'a promise" where
  "pRetry_from k 0 f = f k"
| "pRetry_from k (Suc n) f =
     (case f k of Resolved x \<Rightarrow> Resolved x | Rejected \<Rightarrow> pRetry_from (Suc k) n f)"

definition pRetry :: "nat \<Rightarrow> (nat \<Rightarrow> 'a promise) \<Rightarrow> 'a promise" where
  "pRetry retries f = pRetry_from 0 retries f"

text \<open>
  \<^verbatim>\<open>pMap(xs, mapper)\<close>: the results in the order of \<open>xs\<close>; it rejects when a mapper rejects.
\<close>

fun pMap :: "('a \<Rightarrow> 'b promise) \<Rightarrow> 'a list \<Rightarrow> 'b list promise" where
  "pMap mapper [] = Resolved []"
| "pMap mapper (x # xs) =
     (case mapper x of
        Rejected \<Rightarrow> Rejected
      | Resolved y \<Rightarrow>
          (case pMap mapper xs of Rejected \<Rightarrow> Rejected | Resolved ys \<Rightarrow> Resolved (y # ys)))"

subsection \<open>Collecting the places\<close>

definition LOCATIONS :: "(string \<times> string) list" where
  "LOCATIONS =
     [(''Amsterdam'', ''52.3676,4.9041''), (''Rotterdam'', ''51.9244,4.4777''),
      (''The Hague'', ''52.0705,4.3007''), (''Utrecht'', ''52.0907,5.1214''),
      (''Eindhoven'', ''51.4416,5.4697''), (''Tilburg'', ''51.5555,5.0913''),
      (''Groningen'', ''53.2194,6.5665''), (''Almere'', ''52.3508,5.2647''),
      (''Breda'', ''51.5719,4.7683''), (''Nijmegen'', ''51.8126,5.8372''),
      (''Enschede'', ''52.2215,6.8937''), (''Apeldoorn'', ''52.2112,5.9699''),
      (''Haarlem'', ''52.3874,4.6462''), (''Arnhem'', ''51.9851,5.8987''),
      (''Amersfoort'', ''52.1561,5.3878'')]"

text \<open>
  \<^verbatim>\<open>records\<close> is a \<^verbatim>\<open>Map\<close> from \<^verbatim>\<open>place_id\<close> to the place: its entries in insertion order. A place
  is set only when the map does not have its \<^verbatim>\<open>place_id\<close>.
\<close>

definition records_has :: "raw_place list \<Rightarrow> string \<Rightarrow> bool" where
  "records_has records place_id = (place_id \<in> set (map r_place_id records))"

fun add_results :: "raw_place list \<Rightarrow> raw_place list \<Rightarrow> raw_place list" where
  "add_results records [] = records"
| "add_results records (r # rs) =
     add_results (if records_has records (r_place_id r) then records else records @ [r]) rs"

text \<open>\<^verbatim>\<open>if (page.results?.length) { for (const r of page.results) ... }\<close>\<close>

definition add_page :: "raw_place list \<Rightarrow> search_reply \<Rightarrow> raw_place list" where
  "add_page records page =
     (case sr_results page of None \<Rightarrow> records | Some rs \<Rightarrow> add_results records rs)"

text \<open>
  The calls of \<^verbatim>\<open>textSearch\<close>, each with \<^verbatim>\<open>records.size\<close> at the moment of the call.
\<close>

type_synonym fetch_log = "(search_arg \<times> nat) list"

text \<open>
  \<^verbatim>\<open>for (let i = 0; i < 2 && token; i++)\<close>: \<open>n\<close> counts the turns left. A rejection is caught and
  ends the loop.
\<close>

fun next_pages ::
  "places_api \<Rightarrow> nat \<Rightarrow> string option \<Rightarrow> raw_place list \<Rightarrow> fetch_log \<Rightarrow> raw_place list \<times> fetch_log" where
  "next_pages api 0 token records log = (records, log)"
| "next_pages api (Suc n) None records log = (records, log)"
| "next_pages api (Suc n) (Some token) records log =
     (if token = [] then (records, log)
      else case textSearch api (ByPagetoken token) of
             Rejected \<Rightarrow> (records, log @ [(ByPagetoken token, length records)])
           | Resolved next \<Rightarrow>
               next_pages api n (sr_next_page_token next) (add_page records next)
                 (log @ [(ByPagetoken token, length records)]))"

text \<open>
  \<^verbatim>\<open>for (const loc of LOCATIONS)\<close>. The first search of a location is not inside a \<^verbatim>\<open>try\<close> of the
  loop: its rejection leaves the loop and reaches the handler of \<^verbatim>\<open>main\<close>.
\<close>

fun search_locations ::
  "places_api \<Rightarrow> (string \<times> string) list \<Rightarrow> raw_place list \<Rightarrow> fetch_log \<Rightarrow>
     raw_place list promise \<times> fetch_log" where
  "search_locations api [] records log = (Resolved records, log)"
| "search_locations api (loc # locs) records log =
     (if 100 \<le> length records then (Resolved records, log)
      else case textSearch api (ByLocation (snd loc)) of
             Rejected \<Rightarrow> (Rejected, log @ [(ByLocation (snd loc), length records)])
           | Resolved page \<Rightarrow>
               (case next_pages api 2 (sr_next_page_token page) (add_page records page)
                       (log @ [(ByLocation (snd loc), length records)]) of
                  (records', log') \<Rightarrow> search_locations api locs records' log'))"

subsection \<open>The details of the places\<close>

text \<open>\<^verbatim>\<open>records.get(place_id) || { place_id }\<close>\<close>

definition records_get :: "raw_place list \<Rightarrow> string \<Rightarrow> raw_place" where
  "records_get records place_id =
     (case find (\<lambda>r. r_place_id r = place_id) records of
        Some basic \<Rightarrow> basic
      | None \<Rightarrow> \<lparr>r_place_id = place_id, r_name = None, r_formatted_address = None\<rparr>)"

text \<open>\<^verbatim>\<open>placeDetails?.field ?? fallback\<close>\<close>

definition field_or :: "place_details option \<Rightarrow> (place_details \<Rightarrow> string option) \<Rightarrow> string option \<Rightarrow> string option" where
  "field_or placeDetails field fallback =
     (case placeDetails of
        None \<Rightarrow> fallback
      | Some pd \<Rightarrow> (case field pd of None \<Rightarrow> fallback | Some v \<Rightarrow> Some v))"

text \<open>
  The mapper given to \<^verbatim>\<open>pMap\<close>. Its \<^verbatim>\<open>catch\<close> block reads \<^verbatim>\<open>basic\<close>, a constant of the \<^verbatim>\<open>try\<close> block
  that is not in scope there: reaching the block throws a \<^verbatim>\<open>ReferenceError\<close>, so the mapper
  rejects whenever its \<^verbatim>\<open>try\<close> block does.
\<close>

definition place_mapper :: "places_api \<Rightarrow> web \<Rightarrow> raw_place list \<Rightarrow> string \<Rightarrow> detail promise" where
  "place_mapper api w records place_id =
     (let basic = records_get records place_id in
      case pRetry 2 (getPlaceDetails api place_id) of
        Rejected \<Rightarrow> Rejected
      | Resolved placeDetails \<Rightarrow>
          (let website = field_or placeDetails pd_website None;
               phone = field_or placeDetails pd_formatted_phone_number None in
           case pRetry 1 (\<lambda>k. extractEmailFromWebsite w website) of
             Rejected \<Rightarrow> Rejected
           | Resolved email \<Rightarrow>
               Resolved
                 \<lparr>d_place_id = place_id,
                  d_name = field_or placeDetails pd_name (r_name basic),
                  d_address = field_or placeDetails pd_formatted_address (r_formatted_address basic),
                  d_phone = phone, d_website = website, d_email = email\<rparr>))"

subsection \<open>The run\<close>

text \<open>
  Whether the two \<^verbatim>\<open>fs.writeFile\<close> calls resolve; what the run leaves: the two files (the JSON
  file is the list of records it is written from), whether \<^verbatim>\<open>Fatal error\<close> was logged, and the
  searches that were issued.
\<close>

record disk =
  json_write_ok :: bool
  csv_write_ok :: bool

record run =
  fatal :: bool
  json_file :: "detail list option"
  csv_file :: "string option"
  searches :: fetch_log

definition main :: "places_api \<Rightarrow> web \<Rightarrow> disk \<Rightarrow> run" where
  "main api w dsk =
     (case search_locations api LOCATIONS [] [] of
        (Rejected, log) \<Rightarrow> \<lparr>fatal = True, json_file = None, csv_file = None, searches = log\<rparr>
      | (Resolved records, log) \<Rightarrow>
          (let placeIds = take 100 (map r_place_id records) in
           case pMap (place_mapper api w records) placeIds of
             Rejected \<Rightarrow> \<lparr>fatal = True, json_file = None, csv_file = None, searches = log\<rparr>
           | Resolved details \<Rightarrow>
               if \<not> json_write_ok dsk
               then \<lparr>fatal = True, json_file = None, csv_file = None, searches = log\<rparr>
               else if \<not> csv_write_ok dsk
               then \<lparr>fatal = True, json_file = Some details, csv_file = None, searches = log\<rparr>
               else \<lparr>fatal = False, json_file = Some details, csv_file = Some (csv_of details),
                      searches = log\<rparr>))"

text \<open>
  The script: without \<^verbatim>\<open>GOOGLE_API_KEY\<close> the module throws before \<^verbatim>\<open>main\<close> is called and the process
  exits with status 1; otherwise \<^verbatim>\<open>main\<close> runs, catches whatever is thrown, and the process
  exits with status 0.
\<close>

definition api_script :: "string option \<Rightarrow> places_api \<Rightarrow> web \<Rightarrow> disk \<Rightarrow> nat \<times> run option" where
  "api_script api_key api w dsk =
     (if api_key = None \<or> api_key = Some [] then (1, None) else (0, Some (main api w dsk)))"

subsection \<open>Properties of the collection\<close>

lemma records_has_append [simp]:
  "records_has (records @ [r]) i \<longleftrightarrow> records_has records i \<or> i = r_place_id r"
  by (auto simp: records_has_def)

lemma add_results_append:
  "add_results records (xs @ ys) = add_results (add_results records xs) ys"
  by (induction xs arbitrary: records) simp_all

lemma add_results_ids:
  "set (map r_place_id (add_results records rs)) =
     set (map r_place_id records) \<union> set (map r_place_id rs)"
  by (induction rs arbitrary: records) (auto simp: records_has_def)

lemma add_results_distinct:
  "distinct (map r_place_id records) \<Longrightarrow> distinct (map r_place_id (add_results records rs))"
  by (induction rs arbitrary: records) (auto simp: records_has_def)

lemma add_results_prefix: "\<exists>new. add_results records rs = records @ new"
proof (induction rs arbitrary: records)
  case Nil
  then show ?case by simp
next
  case (Cons r rs)
  let ?records = "if records_has records (r_place_id r) then records else records @ [r]"
  from Cons.IH obtain new where "add_results ?records rs = ?records @ new" by blast
  then show ?case by (cases "records_has records (r_place_id r)") simp_all
qed

lemma remdups_drop_seen: "x \<in> set ys \<Longrightarrow> remdups (xs @ x # ys) = remdups (xs @ ys)"
  by (induction xs) auto

lemma add_results_length: "length records \<le> length (add_results records rs)"
  using add_results_prefix[of records rs] by auto

lemma find_app:
  "find P (xs @ ys) = (case find P xs of None \<Rightarrow> find P ys | Some x \<Rightarrow> Some x)"
  by (induction xs) auto

text \<open>An entry of the map is the first place with its identifier in what was seen.\<close>

lemma add_results_first_seen:
  assumes "\<forall>e\<in>set records. find (\<lambda>x. r_place_id x = r_place_id e) (seen @ rs) = Some e"
    and "set (map r_place_id records) = set (map r_place_id seen)"
  shows "\<forall>e\<in>set (add_results records rs).
           find (\<lambda>x. r_place_id x = r_place_id e) (seen @ rs) = Some e"
  using assms
proof (induction rs arbitrary: records seen)
  case Nil
  then show ?case by simp
next
  case (Cons r rs)
  let ?records = "if records_has records (r_place_id r) then records else records @ [r]"
  have 1: "\<forall>e\<in>set ?records. find (\<lambda>x. r_place_id x = r_place_id e) ((seen @ [r]) @ rs) = Some e"
  proof
    fix e assume e: "e \<in> set ?records"
    show "find (\<lambda>x. r_place_id x = r_place_id e) ((seen @ [r]) @ rs) = Some e"
    proof (cases "e \<in> set records")
      case True
      with Cons.prems(1) show ?thesis by simp
    next
      case False
      with e have er: "e = r" and nh: "\<not> records_has records (r_place_id r)"
        by (auto split: if_splits)
      from nh Cons.prems(2) have "r_place_id r \<notin> set (map r_place_id seen)"
        by (simp add: records_has_def)
      then have "find (\<lambda>x. r_place_id x = r_place_id r) seen = None"
        by (auto simp: find_None_iff image_iff)
      with er show ?thesis by (simp add: find_app)
    qed
  qed
  have 2: "set (map r_place_id ?records) = set (map r_place_id (seen @ [r]))"
    using Cons.prems(2) by (auto simp: records_has_def)
  from Cons.IH[OF 1 2] show ?case by simp
qed

lemma add_results_first_seen_empty:
  "\<forall>e\<in>set (add_results [] rs). find (\<lambda>x. r_place_id x = r_place_id e) rs = Some e"
  using add_results_first_seen[of "[]" "[]" rs] by simp

text \<open>The identifiers of the map stand in the order in which they were first seen.\<close>

lemma add_results_order:
  "distinct (map r_place_id records) \<Longrightarrow>
   map r_place_id (add_results records rs) =
     rev (remdups (rev (map r_place_id records @ map r_place_id rs)))"
proof (induction rs arbitrary: records)
  case Nil
  then show ?case by (simp add: distinct_remdups_id)
next
  case (Cons r rs)
  let ?records = "if records_has records (r_place_id r) then records else records @ [r]"
  have d: "distinct (map r_place_id ?records)"
    using Cons.prems by (auto simp: records_has_def)
  have "rev (remdups (rev (map r_place_id ?records @ map r_place_id rs))) =
        rev (remdups (rev (map r_place_id records @ map r_place_id (r # rs))))"
  proof (cases "records_has records (r_place_id r)")
    case True
    then have "r_place_id r \<in> set (map r_place_id records)" by (simp add: records_has_def)
    then have "remdups (rev (map r_place_id rs) @ r_place_id r # rev (map r_place_id records)) =
               remdups (rev (map r_place_id rs) @ rev (map r_place_id records))"
      by (intro remdups_drop_seen) simp
    with True show ?thesis by simp
  next
    case False
    then show ?thesis by simp
  qed
  with Cons.IH[OF d] show ?case by simp
qed


text \<open>
  What a call of \<^verbatim>\<open>textSearch\<close> yields to the loops, and what the calls of a log yield in order.
\<close>

definition page_results :: "places_api \<Rightarrow> search_arg \<Rightarrow> raw_place list" where
  "page_results api arg =
     (case textSearch api arg of
        Rejected \<Rightarrow> []
      | Resolved page \<Rightarrow> (case sr_results page of None \<Rightarrow> [] | Some rs \<Rightarrow> rs))"

definition yielded :: "places_api \<Rightarrow> fetch_log \<Rightarrow> raw_place list" where
  "yielded api log = concat (map (\<lambda>entry. page_results api (fst entry)) log)"

fun is_location :: "search_arg \<Rightarrow> bool" where
  "is_location (ByLocation l) = True"
| "is_location (ByPagetoken t) = False"

lemma yielded_Nil [simp]: "yielded api [] = []"
  by (simp add: yielded_def)

lemma yielded_Cons: "yielded api (e # es) = yielded api [e] @ yielded api es"
  by (simp add: yielded_def)

lemma yielded_append [simp]: "yielded api (xs @ ys) = yielded api xs @ yielded api ys"
  by (simp add: yielded_def)

lemma add_page_yielded:
  "textSearch api arg = Resolved page \<Longrightarrow>
   add_page records page = add_results records (yielded api [(arg, n)])"
  by (simp add: add_page_def yielded_def page_results_def split: option.splits)

lemma rejected_yields_nothing:
  "textSearch api arg = Rejected \<Longrightarrow> yielded api [(arg, n)] = []"
  by (simp add: yielded_def page_results_def)

lemma next_pages_spec:
  "next_pages api n token records log = (records', log') \<Longrightarrow>
   \<exists>new. log' = log @ new \<and> records' = add_results records (yielded api new) \<and>
         (\<forall>entry\<in>set new. \<not> is_location (fst entry))"
proof (induction api n token records log rule: next_pages.induct)
  case (1 api token records log)
  then show ?case by auto
next
  case (2 api n records log)
  then show ?case by auto
next
  case (3 api n token records log)
  show ?case
  proof (cases "token = []")
    case True
    with 3 show ?thesis by auto
  next
    case False
    let ?entry = "(ByPagetoken token, length records)"
    show ?thesis
    proof (cases "textSearch api (ByPagetoken token)")
      case Rejected
      with False 3 have "log' = log @ [?entry]" and "records' = records" by auto
      moreover from Rejected have "yielded api [?entry] = []" by (rule rejected_yields_nothing)
      ultimately show ?thesis by (intro exI[of _ "[?entry]"]) simp
    next
      case (Resolved nxt)
      with False 3 obtain new where new: "log' = (log @ [?entry]) @ new"
        "records' = add_results (add_page records nxt) (yielded api new)"
        "\<forall>entry\<in>set new. \<not> is_location (fst entry)"
        by auto
      from Resolved have "add_page records nxt = add_results records (yielded api [?entry])"
        by (rule add_page_yielded)
      with new show ?thesis
        by (intro exI[of _ "?entry # new"])
           (simp add: add_results_append yielded_Cons[of api ?entry new])
    qed
  qed
qed

lemma search_locations_spec:
  "search_locations api locs records log = (out, log') \<Longrightarrow>
   \<exists>new. log' = log @ new \<and>
     (\<forall>records'. out = Resolved records' \<longrightarrow> records' = add_results records (yielded api new)) \<and>
     ((\<forall>entry\<in>set log. is_location (fst entry) \<longrightarrow> snd entry < 100) \<longrightarrow>
      (\<forall>entry\<in>set log'. is_location (fst entry) \<longrightarrow> snd entry < 100))"
proof (induction api locs records log rule: search_locations.induct)
  case (1 api records log)
  then show ?case by auto
next
  case (2 api loc locs records log)
  show ?case
  proof (cases "100 \<le> length records")
    case True
    with 2 show ?thesis by auto
  next
    case False
    let ?entry = "(ByLocation (snd loc), length records)"
    show ?thesis
    proof (cases "textSearch api (ByLocation (snd loc))")
      case Rejected
      with False 2 have "log' = log @ [?entry]" and "out = Rejected" by simp_all
      with False show ?thesis by (intro exI[of _ "[?entry]"]) auto
    next
      case (Resolved page)
      obtain recs1 log1 where np: "next_pages api 2 (sr_next_page_token page)
          (add_page records page) (log @ [?entry]) = (recs1, log1)"
        by (cases "next_pages api 2 (sr_next_page_token page) (add_page records page) (log @ [?entry])")
      from next_pages_spec[OF np] obtain new1 where new1: "log1 = (log @ [?entry]) @ new1"
        "recs1 = add_results (add_page records page) (yielded api new1)"
        "\<forall>entry\<in>set new1. \<not> is_location (fst entry)"
        by blast
      from False Resolved np 2 have rest: "search_locations api locs recs1 log1 = (out, log')"
        by simp
      from "2.IH"[OF False Resolved np[symmetric] rest] obtain new2 where new2: "log' = log1 @ new2"
        "\<forall>records'. out = Resolved records' \<longrightarrow> records' = add_results recs1 (yielded api new2)"
        "(\<forall>entry\<in>set log1. is_location (fst entry) \<longrightarrow> snd entry < 100) \<longrightarrow>
         (\<forall>entry\<in>set log'. is_location (fst entry) \<longrightarrow> snd entry < 100)"
        by blast
      from Resolved have ap: "add_page records page = add_results records (yielded api [?entry])"
        by (rule add_page_yielded)
      have a: "log' = log @ (?entry # new1 @ new2)" using new1 new2 by simp
      have y: "yielded api (?entry # new1 @ new2) =
                 yielded api [?entry] @ yielded api new1 @ yielded api new2"
        by (simp add: yielded_def)
      have b: "\<forall>records'. out = Resolved records' \<longrightarrow>
                 records' = add_results records (yielded api (?entry # new1 @ new2))"
        unfolding y using new1(2) new2(2) ap by (simp add: add_results_append)
      have c: "(\<forall>entry\<in>set log. is_location (fst entry) \<longrightarrow> snd entry < 100) \<longrightarrow>
               (\<forall>entry\<in>set log'. is_location (fst entry) \<longrightarrow> snd entry < 100)"
        using new1 new2(3) False by auto
      from a b c show ?thesis by blast
    qed
  qed
qed

lemma pMap_resolved:
  "pMap mapper xs = Resolved ys \<Longrightarrow> list_all2 (\<lambda>x y. mapper x = Resolved y) xs ys"
  by (induction xs arbitrary: ys) (auto split: promise.splits)

lemma pMap_rejected:
  "x \<in> set xs \<Longrightarrow> mapper x = Rejected \<Longrightarrow> pMap mapper xs = Rejected"
  by (induction xs) (auto split: promise.splits)

lemma searches_main: "searches (main api w dsk) = snd (search_locations api LOCATIONS [] [])"
  by (simp add: main_def Let_def split: prod.splits promise.splits)

lemma main_json:
  assumes "json_file (main api w dsk) = Some details"
  shows "\<exists>records. fst (search_locations api LOCATIONS [] []) = Resolved records \<and>
           pMap (place_mapper api w records) (take 100 (map r_place_id records)) = Resolved details"
  using assms by (auto simp: main_def Let_def split: prod.splits promise.splits if_splits)

section \<open>Claim C4: a denied request on the first search of a region\<close>

text \<open>Replies and services of the examples.\<close>

definition place :: "string \<Rightarrow> raw_place" where
  "place i = \<lparr>r_place_id = i, r_name = Some (''Tandarts '' @ i), r_formatted_address = None\<rparr>"

definition no_results :: search_reply where
  "no_results = \<lparr>sr_status = ''ZERO_RESULTS'', sr_results = Some [], sr_next_page_token = None\<rparr>"

definition denied :: search_reply where
  "denied = \<lparr>sr_status = ''REQUEST_DENIED'', sr_results = None, sr_next_page_token = None\<rparr>"

definition some_details :: details_reply where
  "some_details =
     \<lparr>dr_status = ''OK'',
      dr_result = Some \<lparr>pd_name = None, pd_formatted_address = Some ''Damrak 1, Amsterdam'',
                        pd_formatted_phone_number = None, pd_website = None\<rparr>\<rparr>"

text \<open>Amsterdam yields two places; the key is refused from the search around Rotterdam on.\<close>

definition denied_api :: places_api where
  "denied_api =
     \<lparr>search_location = (\<lambda>l.
        if l = ''52.3676,4.9041''
        then Resolved \<lparr>sr_status = ''OK'', sr_results = Some [place ''A'', place ''B''],
                       sr_next_page_token = None\<rparr>
        else Resolved denied),
      search_pagetoken = (\<lambda>t. Resolved denied),
      details_request = (\<lambda>p n. Resolved some_details)\<rparr>"

text \<open>The key is refused from the first search on.\<close>

definition refused_api :: places_api where
  "refused_api =
     \<lparr>search_location = (\<lambda>l. Resolved denied), search_pagetoken = (\<lambda>t. Resolved denied),
      details_request = (\<lambda>p n. Resolved some_details)\<rparr>"

definition disk_ok :: disk where
  "disk_ok = \<lparr>json_write_ok = True, csv_write_ok = True\<rparr>"

text \<open>
  Claim C4 as stated fails: the rejection of the first search of a region is caught by the
  handler of \<^verbatim>\<open>main\<close> only. When the search around Rotterdam is denied, no search is made for
  The Hague or any later region, and nothing is written, although Amsterdam had yielded two
  places.
\<close>

theorem request_denied_aborts_counterexample:
  "main denied_api offline_web disk_ok =
     \<lparr>fatal = True, json_file = None, csv_file = None,
      searches = [(ByLocation ''52.3676,4.9041'', 0), (ByLocation ''51.9244,4.4777'', 2)]\<rparr>"
  by code_simp

lemma search_locations_app:
  "search_locations api (pre @ rest) records log =
     (case search_locations api pre records log of
        (Rejected, log') \<Rightarrow> (Rejected, log')
      | (Resolved records', log') \<Rightarrow> search_locations api rest records' log')"
proof (induction api pre records log rule: search_locations.induct)
  case (1 api records log)
  then show ?case by simp
next
  case (2 api loc locs records log)
  show ?case
  proof (cases "100 \<le> length records")
    case True
    then show ?thesis by (cases rest) simp_all
  next
    case False
    with 2 show ?thesis by (simp split: promise.splits prod.splits)
  qed
qed

lemma textSearch_denied:
  "search_location api l = Resolved reply \<Longrightarrow> sr_status reply = ''REQUEST_DENIED'' \<Longrightarrow>
   textSearch api (ByLocation l) = Rejected"
  by (simp add: textSearch_def)

text \<open>
  Claim C4, amended. When the first search of a region is answered \<^verbatim>\<open>REQUEST_DENIED\<close> (the
  regions before it having been searched, with fewer than 100 places collected), the request
  is made once and not repeated, \<^verbatim>\<open>textSearch\<close> throws, and the throw is fatal for the run:
  \<^verbatim>\<open>main\<close> logs the fatal error, searches no further region and writes no file.
\<close>

theorem request_denied_is_fatal:
  assumes "LOCATIONS = pre @ loc # post"
    and "search_locations api pre [] [] = (Resolved records, log)"
    and "length records < 100"
    and "search_location api (snd loc) = Resolved reply"
    and "sr_status reply = ''REQUEST_DENIED''"
  shows "main api w dsk =
           \<lparr>fatal = True, json_file = None, csv_file = None,
            searches = log @ [(ByLocation (snd loc), length records)]\<rparr>"
proof -
  from assms(4,5) have "textSearch api (ByLocation (snd loc)) = Rejected"
    by (rule textSearch_denied)
  with assms(3) have step: "search_locations api (loc # post) records log =
      (Rejected, log @ [(ByLocation (snd loc), length records)])"
    by simp
  have "search_locations api (pre @ loc # post) [] [] =
        search_locations api (loc # post) records log"
    using assms(2) by (simp add: search_locations_app del: search_locations.simps)
  with step assms(1) have "search_locations api LOCATIONS [] [] =
      (Rejected, log @ [(ByLocation (snd loc), length records)])"
    by (simp only:)
  then show ?thesis by (simp add: main_def)
qed

theorem request_denied_is_fatal_witness:
  "main refused_api offline_web disk_ok =
     \<lparr>fatal = True, json_file = None, csv_file = None,
      searches = [(ByLocation ''52.3676,4.9041'', 0)]\<rparr>"
proof -
  have 1: "LOCATIONS = [] @ (''Amsterdam'', ''52.3676,4.9041'') # drop 1 LOCATIONS"
    by (simp add: LOCATIONS_def)
  have 2: "search_locations refused_api [] [] [] = (Resolved [], [])" by simp
  have 3: "length ([] :: raw_place list) < 100" by simp
  have 4: "search_location refused_api (snd (''Amsterdam'', ''52.3676,4.9041'')) = Resolved denied"
    by (simp add: refused_api_def)
  have 5: "sr_status denied = ''REQUEST_DENIED''" by (simp add: denied_def)
  from request_denied_is_fatal[OF 1 2 3 4 5] show ?thesis by simp
qed

section \<open>Claim C3: a failure for one place\<close>

text \<open>
  Amsterdam yields two places; the details of the second cannot be fetched (the request
  rejects each of the three times it is made).
\<close>

definition flaky_api :: places_api where
  "flaky_api =
     \<lparr>search_location = (\<lambda>l.
        if l = ''52.3676,4.9041''
        then Resolved \<lparr>sr_status = ''OK'', sr_results = Some [place ''A'', place ''B''],
                       sr_next_page_token = None\<rparr>
        else Resolved no_results),
      search_pagetoken = (\<lambda>t. Resolved no_results),
      details_request = (\<lambda>p n. if p = ''B'' then Rejected else Resolved some_details)\<rparr>"

text \<open>
  Claim C3 at the place whose details cannot be fetched: the \<^verbatim>\<open>catch\<close> block of the mapper, which
  would return the record with empty fields, throws itself; \<^verbatim>\<open>pMap\<close> rejects, and \<^verbatim>\<open>main\<close> ends
  with its fatal error and writes neither file, although the first place was complete.
\<close>

theorem details_failure_aborts_run:
  "place_mapper flaky_api offline_web [place ''A'', place ''B''] ''B'' = Rejected \<and>
   fatal (main flaky_api offline_web disk_ok) \<and>
   json_file (main flaky_api offline_web disk_ok) = None \<and>
   csv_file (main flaky_api offline_web disk_ok) = None"
  by code_simp

section \<open>The Hungarian script: \<^verbatim>\<open>scrapeDentists\<close>\<close>

text \<open>
  The block of a listing as cheerio reads it from the results page: the \<^verbatim>\<open>href\<close> of its
  first anchor, the headline, the address and the phone of its body, and the \<^verbatim>\<open>href\<close> of the
  website link of the block (empty when the block has none).
\<close>

record card =
  c_href :: string
  c_headline :: string
  c_address :: string
  c_phone :: string
  c_website :: string

record dentist =
  dt_index :: nat
  dt_clinicName :: string
  dt_dentistName :: string
  dt_address :: string
  dt_phone :: string
  dt_email :: "string option"
  dt_website :: string
  dt_googleUrl :: string

text \<open>
  The world of a run: whether the browser launches; the cards of the results page of a city
  at its first or second attempt (a rejection: the tab, the navigation, the scrolling or its
  90 s limit, or reading the page threw); the websites; whether \<^verbatim>\<open>browser.close()\<close> and
  \<^verbatim>\<open>csvWriter.writeRecords\<close> resolve. (\<^verbatim>\<open>page.close()\<close> is guarded by a \<^verbatim>\<open>try\<close> of its own here.)
\<close>

record hu_world =
  hu_launch_ok :: bool
  hu_search :: "string \<Rightarrow> nat \<Rightarrow> card list promise"
  hu_axios_get :: "string \<Rightarrow> axios_data promise"
  hu_browser_close_ok :: bool
  hu_write_ok :: bool

text \<open>The city names, written without their accents.\<close>

definition cities :: "string list" where
  "cities = [''Budapest'', ''Debrecen'', ''Szeged'', ''Miskolc'', ''Pecs'', ''Gyor'']"

text \<open>The fetches of a run, each with \<^verbatim>\<open>results.length\<close> at the moment it is issued.\<close>

datatype hu_fetch = CitySearch string nat | SiteFetch string

type_synonym hu_log = "(hu_fetch \<times> nat) list"

text \<open>
  \<^verbatim>\<open>for (const parent of parents)\<close>: the flag tells whether the loop ended without a throw.
  \<^verbatim>\<open>index\<close> is 1 at the start and grows with each push, so it is \<^verbatim>\<open>results.length + 1\<close>.
\<close>

fun add_cards ::
  "hu_world \<Rightarrow> card list \<Rightarrow> dentist list \<Rightarrow> hu_log \<Rightarrow> bool \<times> dentist list \<times> hu_log" where
  "add_cards w [] results log = (True, results, log)"
| "add_cards w (c # cs) results log =
     (if c_website c = [] then
        (let results' = results @
               [\<lparr>dt_index = length results + 1, dt_clinicName = c_headline c, dt_dentistName = [],
                 dt_address = c_address c, dt_phone = c_phone c, dt_email = Some [],
                 dt_website = c_website c, dt_googleUrl = c_href c\<rparr>]
         in if 500 \<le> length results' then (True, results', log) else add_cards w cs results' log)
      else
        (case scrapeWebsiteForEmail_axios (hu_axios_get w) (c_website c) of
           Rejected \<Rightarrow> (False, results, log @ [(SiteFetch (c_website c), length results)])
         | Resolved email \<Rightarrow>
             (let results' = results @
                    [\<lparr>dt_index = length results + 1, dt_clinicName = c_headline c,
                      dt_dentistName = [], dt_address = c_address c, dt_phone = c_phone c,
                      dt_email = email, dt_website = c_website c, dt_googleUrl = c_href c\<rparr>];
                  log' = log @ [(SiteFetch (c_website c), length results)]
              in if 500 \<le> length results' then (True, results', log')
                 else add_cards w cs results' log')))"

text \<open>
  \<^verbatim>\<open>while (attempt < 2 && !citySuccess)\<close>, with the \<^verbatim>\<open>break\<close> at its end when 500 records are held.
\<close>

function try_city ::
  "hu_world \<Rightarrow> string \<Rightarrow> nat \<Rightarrow> dentist list \<Rightarrow> hu_log \<Rightarrow> dentist list \<times> hu_log" where
  "try_city w city attempt results log =
     (if attempt < 2 then
        (case hu_search w city (attempt + 1) of
           Rejected \<Rightarrow>
             (if 500 \<le> length results
              then (results, log @ [(CitySearch city (attempt + 1), length results)])
              else try_city w city (attempt + 1) results
                     (log @ [(CitySearch city (attempt + 1), length results)]))
         | Resolved parents \<Rightarrow>
             (case add_cards w parents results
                     (log @ [(CitySearch city (attempt + 1), length results)]) of
                (True, results', log') \<Rightarrow> (results', log')
              | (False, results', log') \<Rightarrow>
                  if 500 \<le> length results' then (results', log')
                  else try_city w city (attempt + 1) results' log'))
      else (results, log))"
  by pat_completeness auto
termination
  by (relation "measure (\<lambda>(w, city, attempt, results, log). 2 - attempt)") auto

text \<open>\<^verbatim>\<open>for (const city of cities)\<close>, with the \<^verbatim>\<open>break\<close> at its end.\<close>

fun each_city :: "hu_world \<Rightarrow> string list \<Rightarrow> dentist list \<Rightarrow> hu_log \<Rightarrow> dentist list \<times> hu_log" where
  "each_city w [] results log = (results, log)"
| "each_city w (city # rest) results log =
     (case try_city w city 0 results log of
        (results', log') \<Rightarrow>
          if 500 \<le> length results' then (results', log') else each_city w rest results' log')"

definition scrapeDentists :: "hu_world \<Rightarrow> dentist list promise \<times> hu_log" where
  "scrapeDentists w =
     (if \<not> hu_launch_ok w then (Rejected, [])
      else case each_city w cities [] [] of
             (results, log) \<Rightarrow> (if hu_browser_close_ok w then Resolved results else Rejected, log))"

text \<open>The entry point: the exit status, and the records written to the CSV file.\<close>

definition hu_script :: "hu_world \<Rightarrow> nat \<times> dentist list option" where
  "hu_script w =
     (case fst (scrapeDentists w) of
        Rejected \<Rightarrow> (1, None)
      | Resolved data \<Rightarrow> if hu_write_ok w then (0, Some data) else (1, None))"

subsection \<open>The cap of 500\<close>

definition below :: "nat \<Rightarrow> hu_log \<Rightarrow> bool" where
  "below cap log = (\<forall>entry\<in>set log. snd entry < cap)"

lemma below_snoc [simp]: "below cap (log @ [e]) \<longleftrightarrow> below cap log \<and> snd e < cap"
  by (auto simp: below_def)

lemma add_cards_cap:
  assumes "add_cards w cs results log = (ok, results', log')"
    and "length results < 500" and "below 500 log"
  shows "length results' \<le> 500 \<and> below 500 log' \<and> length results \<le> length results'"
  using assms
proof (induction w cs results log rule: add_cards.induct)
  case (1 w results log)
  then show ?case by auto
next
  case (2 w c cs results log)
  show ?case
  proof (cases "c_website c = []")
    case True
    let ?results = "results @
               [\<lparr>dt_index = length results + 1, dt_clinicName = c_headline c, dt_dentistName = [],
                 dt_address = c_address c, dt_phone = c_phone c, dt_email = Some [],
                 dt_website = c_website c, dt_googleUrl = c_href c\<rparr>]"
    show ?thesis
    proof (cases "500 \<le> length ?results")
      case full: True
      with True "2.prems" show ?thesis by (auto simp: Let_def)
    next
      case False
      with True "2.prems" have "add_cards w cs ?results log = (ok, results', log')"
        by (simp add: Let_def)
      from "2.IH"(1)[OF True refl False this] False "2.prems"(3) show ?thesis by simp
    qed
  next
    case site: False
    show ?thesis
    proof (cases "scrapeWebsiteForEmail_axios (hu_axios_get w) (c_website c)")
      case Rejected
      with site "2.prems" show ?thesis by auto
    next
      case (Resolved email)
      let ?results = "results @
                    [\<lparr>dt_index = length results + 1, dt_clinicName = c_headline c,
                      dt_dentistName = [], dt_address = c_address c, dt_phone = c_phone c,
                      dt_email = email, dt_website = c_website c, dt_googleUrl = c_href c\<rparr>]"
      let ?log = "log @ [(SiteFetch (c_website c), length results)]"
      show ?thesis
      proof (cases "500 \<le> length ?results")
        case True
        with site Resolved "2.prems" show ?thesis by (auto simp: Let_def)
      next
        case False
        with site Resolved "2.prems" have "add_cards w cs ?results ?log = (ok, results', log')"
          by (simp add: Let_def)
        from "2.IH"(2)[OF site Resolved refl refl False this] False "2.prems"(2,3)
        show ?thesis by simp
      qed
    qed
  qed
qed

lemma try_city_cap:
  assumes "try_city w city attempt results log = (results', log')"
    and "length results < 500" and "below 500 log"
  shows "length results' \<le> 500 \<and> below 500 log'"
  using assms
proof (induction w city attempt results log rule: try_city.induct)
  case (1 w city attempt results log)
  show ?case
  proof (cases "attempt < 2")
    case False
    with "1.prems" show ?thesis by simp
  next
    case True
    let ?log = "log @ [(CitySearch city (attempt + 1), length results)]"
    have bl: "below 500 ?log" using "1.prems"(2,3) by simp
    show ?thesis
    proof (cases "hu_search w city (attempt + 1)")
      case Rejected
      with True "1.prems" have "try_city w city (attempt + 1) results ?log = (results', log')"
        by simp
      from "1.IH"(1)[OF True Rejected _ this "1.prems"(2) bl] "1.prems"(2) show ?thesis by simp
    next
      case (Resolved parents)
      obtain ok results1 log1 where ac: "add_cards w parents results ?log = (ok, results1, log1)"
        by (cases "add_cards w parents results ?log") auto
      from add_cards_cap[OF ac "1.prems"(2) bl]
      have c1: "length results1 \<le> 500" "below 500 log1" by simp_all
      show ?thesis
      proof (cases "ok \<or> 500 \<le> length results1")
        case True
        with \<open>attempt < 2\<close> Resolved ac "1.prems"(1) have "results' = results1" "log' = log1"
          by (auto split: if_splits bool.splits)
        with c1 show ?thesis by simp
      next
        case False
        then have okF: "ok = False" and n500: "\<not> 500 \<le> length results1"
          and lt: "length results1 < 500" by simp_all
        with \<open>attempt < 2\<close> Resolved ac "1.prems"(1)
        have "try_city w city (attempt + 1) results1 log1 = (results', log')" by simp
        from "1.IH"(2)[OF \<open>attempt < 2\<close> Resolved ac[symmetric] okF refl n500 this lt c1(2)]
        show ?thesis .
      qed
    qed
  qed
qed

lemma each_city_cap:
  assumes "each_city w cs results log = (results', log')"
    and "length results < 500" and "below 500 log"
  shows "length results' \<le> 500 \<and> below 500 log'"
  using assms
proof (induction cs arbitrary: results log)
  case Nil
  then show ?case by simp
next
  case (Cons city cs)
  obtain results1 log1 where tc: "try_city w city 0 results log = (results1, log1)"
    by (cases "try_city w city 0 results log")
  from try_city_cap[OF tc Cons.prems(2,3)] have c1: "length results1 \<le> 500" "below 500 log1"
    by simp_all
  show ?case
  proof (cases "500 \<le> length results1")
    case True
    with tc Cons.prems(1) c1 show ?thesis by simp
  next
    case False
    with tc Cons.prems(1) have "each_city w cs results1 log1 = (results', log')" by simp
    with Cons.IH False c1(2) show ?thesis by simp
  qed
qed

lemma scrapeDentists_cap:
  "(\<forall>data. fst (scrapeDentists w) = Resolved data \<longrightarrow> length data \<le> 500) \<and>
   below 500 (snd (scrapeDentists w))"
proof (cases "hu_launch_ok w")
  case False
  then show ?thesis by (simp add: scrapeDentists_def below_def)
next
  case True
  obtain results log where ec: "each_city w cities [] [] = (results, log)"
    by (cases "each_city w cities [] []")
  have "length ([] :: dentist list) < 500" and "below 500 []" by (simp_all add: below_def)
  from each_city_cap[OF ec this] True ec show ?thesis by (simp add: scrapeDentists_def)
qed

section \<open>The Reiki script: \<^verbatim>\<open>scrapeReikiPractitioners\<close>\<close>

record practitioner =
  p_index :: nat
  p_practitionerName :: string
  p_address :: string
  p_phone :: string
  p_email :: "string option"
  p_website :: string
  p_googleUrl :: string

text \<open>
  The world of a run: whether the browser launches; the cards of the results page of a
  country at its first or second attempt (a rejection: the tab, the navigation, the
  scrolling or its 90 s limit, or reading the page threw); whether the \<^verbatim>\<open>page.close()\<close> in the
  \<^verbatim>\<open>finally\<close> block of that attempt resolves (it is not guarded here); what
  \<^verbatim>\<open>scrapeListingDetails\<close> returns for a listing (it catches whatever it throws); the browser
  as the e-mail extractor meets it; whether \<^verbatim>\<open>browser.close()\<close> and \<^verbatim>\<open>csvWriter.writeRecords\<close>
  resolve.
\<close>

record reiki_world =
  rk_launch_ok :: bool
  rk_search :: "string \<Rightarrow> nat \<Rightarrow> card list promise"
  rk_tab_close_ok :: "string \<Rightarrow> nat \<Rightarrow> bool"
  rk_details :: "string \<Rightarrow> string"
  rk_browser :: browser
  rk_browser_close_ok :: bool
  rk_write_ok :: bool

definition countries :: "string list" where
  "countries = [''England'', ''Ireland'', ''Scotland'', ''Wales'']"

text \<open>
  The four country tasks run concurrently (\<^verbatim>\<open>Promise.all\<close>; the second and the fourth start
  one and three seconds late). A task runs without interruption from one \<^verbatim>\<open>await\<close> to the
  next, so a run is an interleaving of the steps below. Where a task stands:
  \<^item> \<open>LoopHead\<close>: before the test of the \<^verbatim>\<open>while\<close> loop;
  \<^item> \<open>Enriching cs\<close>: inside the \<^verbatim>\<open>for\<close> loop, awaiting the website and the e-mail of the first
    card of \<open>cs\<close>, which it will then push;
  \<^item> \<open>Waiting cs\<close>: after a push, awaiting the timer of one second; \<open>cs\<close> are the cards left;
  \<^item> \<open>Done\<close>: the task has returned.
\<close>

datatype phase = LoopHead | Enriching "card list" | Waiting "card list" | Done

record task =
  t_country :: string
  t_attempt :: nat
  t_success :: bool
  t_phase :: phase

text \<open>The fetches of a run, each with the country of the task that issued it.\<close>

datatype rk_fetch = CountrySearch nat | DetailsPage string | SiteVisit string

type_synonym rk_log = "(string \<times> rk_fetch) list"

text \<open>
  The shared state: \<^verbatim>\<open>results\<close> (with \<^verbatim>\<open>index = results.length + 1\<close>), the tasks, whether a task
  has rejected (then \<^verbatim>\<open>Promise.all\<close> rejects and the entry point exits), and the fetches.
\<close>

record pool =
  results :: "practitioner list"
  tasks :: "task list"
  rejected :: bool
  fetches :: rk_log

text \<open>The end of an attempt: the \<^verbatim>\<open>finally\<close> block closes the tab, and the loop test is next.\<close>

definition end_attempt :: "reiki_world \<Rightarrow> task \<Rightarrow> pool \<Rightarrow> nat \<Rightarrow> pool" where
  "end_attempt w t p i =
     p\<lparr>tasks := (tasks p)[i := t\<lparr>t_phase := LoopHead\<rparr>],
       rejected := \<not> rk_tab_close_ok w (t_country t) (t_attempt t)\<rparr>"

text \<open>\<^verbatim>\<open>website\<close> and \<^verbatim>\<open>email\<close> of a card, and the fetches made for them.\<close>

definition card_website :: "reiki_world \<Rightarrow> card \<Rightarrow> string" where
  "card_website w c = (if c_website c \<noteq> [] then c_website c else rk_details w (c_href c))"

definition card_email :: "reiki_world \<Rightarrow> card \<Rightarrow> string option promise" where
  "card_email w c =
     (if card_website w c \<noteq> [] then fst (scrapeWebsiteForEmail (rk_browser w) (card_website w c))
      else Resolved (Some []))"

definition card_fetches :: "reiki_world \<Rightarrow> string \<Rightarrow> card \<Rightarrow> rk_log" where
  "card_fetches w country c =
     (if c_website c \<noteq> [] then [] else [(country, DetailsPage (c_href c))]) @
     (if card_website w c \<noteq> [] then [(country, SiteVisit (card_website w c))] else [])"

text \<open>One step of task \<open>i\<close>.\<close>

definition task_step :: "reiki_world \<Rightarrow> nat \<Rightarrow> pool \<Rightarrow> pool" where
  "task_step w i p =
     (let t = tasks p ! i in
      case t_phase t of
        Done \<Rightarrow> p
      | LoopHead \<Rightarrow>
          if t_attempt t < 2 \<and> \<not> t_success t \<and> length (results p) < 100 then
            (let t1 = t\<lparr>t_attempt := t_attempt t + 1\<rparr>;
                 p1 = p\<lparr>fetches := fetches p @ [(t_country t, CountrySearch (t_attempt t + 1))]\<rparr>
             in case rk_search w (t_country t) (t_attempt t + 1) of
                  Rejected \<Rightarrow> end_attempt w t1 p1 i
                | Resolved parents \<Rightarrow>
                    if parents = [] then end_attempt w (t1\<lparr>t_success := True\<rparr>) p1 i
                    else p1\<lparr>tasks := (tasks p)[i := t1\<lparr>t_phase := Enriching parents\<rparr>]\<rparr>)
          else p\<lparr>tasks := (tasks p)[i := t\<lparr>t_phase := Done\<rparr>]\<rparr>
      | Enriching [] \<Rightarrow> end_attempt w (t\<lparr>t_success := True\<rparr>) p i
      | Enriching (c # cs) \<Rightarrow>
          (let p1 = p\<lparr>fetches := fetches p @ card_fetches w (t_country t) c\<rparr>
           in case card_email w c of
                Rejected \<Rightarrow> end_attempt w t p1 i
              | Resolved email \<Rightarrow>
                  p1\<lparr>results := results p @
                        [\<lparr>p_index = length (results p) + 1, p_practitionerName = c_headline c,
                          p_address = c_address c, p_phone = c_phone c, p_email = email,
                          p_website = card_website w c, p_googleUrl = c_href c\<rparr>],
                      tasks := (tasks p)[i := t\<lparr>t_phase := Waiting cs\<rparr>]\<rparr>)
      | Waiting cs \<Rightarrow>
          if 100 \<le> length (results p) \<or> cs = [] then end_attempt w (t\<lparr>t_success := True\<rparr>) p i
          else p\<lparr>tasks := (tasks p)[i := t\<lparr>t_phase := Enriching cs\<rparr>]\<rparr>)"

text \<open>
  A schedule names, step by step, the task that runs next. Nothing runs after a task has
  rejected; a number that names no task runs nothing.
\<close>

definition pool_step :: "reiki_world \<Rightarrow> pool \<Rightarrow> nat \<Rightarrow> pool" where
  "pool_step w p i = (if rejected p \<or> length (tasks p) \<le> i then p else task_step w i p)"

definition run_pool :: "reiki_world \<Rightarrow> nat list \<Rightarrow> pool \<Rightarrow> pool" where
  "run_pool w schedule p = foldl (pool_step w) p schedule"

definition start :: pool where
  "start =
     \<lparr>results = [],
      tasks = map (\<lambda>c. \<lparr>t_country = c, t_attempt = 0, t_success = False, t_phase = LoopHead\<rparr>)
                countries,
      rejected = False, fetches = []\<rparr>"

definition all_done :: "pool \<Rightarrow> bool" where
  "all_done p = list_all (\<lambda>t. t_phase t = Done) (tasks p)"

text \<open>
  The function under a schedule: \<open>None\<close> when the schedule ends before every task has
  returned or one has rejected.
\<close>

definition scrapeReikiPractitioners ::
  "reiki_world \<Rightarrow> nat list \<Rightarrow> practitioner list promise option" where
  "scrapeReikiPractitioners w schedule =
     (if \<not> rk_launch_ok w then Some Rejected
      else let p = run_pool w schedule start in
           if rejected p then Some Rejected
           else if all_done p
                then Some (if rk_browser_close_ok w then Resolved (results p) else Rejected)
                else None)"

text \<open>The entry point: the exit status, and the records written to the CSV file.\<close>

definition reiki_script :: "reiki_world \<Rightarrow> nat list \<Rightarrow> (nat \<times> practitioner list option) option" where
  "reiki_script w schedule =
     (case scrapeReikiPractitioners w schedule of
        None \<Rightarrow> None
      | Some Rejected \<Rightarrow> Some (1, None)
      | Some (Resolved data) \<Rightarrow> Some (if rk_write_ok w then (0, Some data) else (1, None)))"

subsection \<open>Steps of the pool\<close>

definition at_check :: "task \<Rightarrow> bool" where
  "at_check t = (case t_phase t of Enriching cs \<Rightarrow> False | _ \<Rightarrow> True)"

definition fetches_of :: "string \<Rightarrow> pool \<Rightarrow> rk_fetch list" where
  "fetches_of country p = map snd (filter (\<lambda>e. fst e = country) (fetches p))"

lemma end_attempt_simps [simp]:
  "results (end_attempt w t p i) = results p"
  "fetches (end_attempt w t p i) = fetches p"
  "tasks (end_attempt w t p i) = (tasks p)[i := t\<lparr>t_phase := LoopHead\<rparr>]"
  "rejected (end_attempt w t p i) = (\<not> rk_tab_close_ok w (t_country t) (t_attempt t))"
  by (simp_all add: end_attempt_def)

text \<open>
  What a step of task \<open>i\<close> leaves alone: the other tasks, the country of the task, and what
  \<^verbatim>\<open>results\<close> and the log held before.
\<close>

lemma task_step_frame:
  assumes "i < length (tasks p)"
  shows "length (tasks (task_step w i p)) = length (tasks p)"
    and "\<And>j. j \<noteq> i \<Longrightarrow> tasks (task_step w i p) ! j = tasks p ! j"
    and "t_country (tasks (task_step w i p) ! i) = t_country (tasks p ! i)"
    and "\<exists>new. results (task_step w i p) = results p @ new"
    and "\<exists>new. fetches (task_step w i p) = fetches p @ new \<and>
               (\<forall>e\<in>set new. fst e = t_country (tasks p ! i))"
  using assms
  by (auto simp: task_step_def Let_def card_fetches_def
           split: phase.splits list.splits promise.splits if_splits)


lemma task_step_at_cap:
  assumes "i < length (tasks p)" and "100 \<le> length (results p)" and "at_check (tasks p ! i)"
  shows "at_check (tasks (task_step w i p) ! i)"
    and "fetches (task_step w i p) = fetches p"
    and "results (task_step w i p) = results p"
  using assms
  by (auto simp: task_step_def Let_def at_check_def split: phase.splits)

lemma pool_step_after_cap:
  assumes "i < length (tasks p)" and "100 \<le> length (results p)" and "at_check (tasks p ! i)"
    and "distinct (map t_country (tasks p))"
  shows "i < length (tasks (pool_step w p j)) \<and> 100 \<le> length (results (pool_step w p j)) \<and>
         at_check (tasks (pool_step w p j) ! i) \<and>
         map t_country (tasks (pool_step w p j)) = map t_country (tasks p) \<and>
         fetches_of (t_country (tasks p ! i)) (pool_step w p j) =
           fetches_of (t_country (tasks p ! i)) p"
proof (cases "rejected p \<or> length (tasks p) \<le> j")
  case True
  with assms show ?thesis by (simp add: pool_step_def)
next
  case False
  then have j: "j < length (tasks p)" and ps: "pool_step w p j = task_step w j p"
    by (simp_all add: pool_step_def)
  note fr = task_step_frame[where w = w and i = j and p = p, OF j]
  have countries: "map t_country (tasks (task_step w j p)) = map t_country (tasks p)"
  proof (rule nth_equalityI)
    show "length (map t_country (tasks (task_step w j p))) = length (map t_country (tasks p))"
      using fr(1) by simp
  next
    fix k assume "k < length (map t_country (tasks (task_step w j p)))"
    then have k: "k < length (tasks p)" using fr(1) by simp
    show "map t_country (tasks (task_step w j p)) ! k = map t_country (tasks p) ! k"
      using k fr(1,2,3) by (cases "k = j") simp_all
  qed
  show ?thesis
  proof (cases "j = i")
    case True
    with task_step_at_cap[where w = w, OF assms(1-3)] assms(1,2) fr(1) ps countries show ?thesis
      by (simp add: fetches_of_def)
  next
    case False
    from fr(4) obtain newr where newr: "results (task_step w j p) = results p @ newr" by blast
    from fr(5) obtain newf where newf: "fetches (task_step w j p) = fetches p @ newf"
      "\<forall>e\<in>set newf. fst e = t_country (tasks p ! j)" by blast
    from assms(4) assms(1) j False have "t_country (tasks p ! j) \<noteq> t_country (tasks p ! i)"
      by (simp add: distinct_conv_nth)
    with newf(2) have "filter (\<lambda>e. fst e = t_country (tasks p ! i)) newf = []"
      by (auto simp: filter_empty_conv)
    with newf(1) have "fetches_of (t_country (tasks p ! i)) (task_step w j p) =
                       fetches_of (t_country (tasks p ! i)) p"
      by (simp add: fetches_of_def)
    with False fr(1) fr(2)[of i] newr assms(1-3) ps countries show ?thesis by simp
  qed
qed

lemma run_pool_after_cap:
  assumes "i < length (tasks p)" and "100 \<le> length (results p)" and "at_check (tasks p ! i)"
    and "distinct (map t_country (tasks p))"
  shows "at_check (tasks (run_pool w schedule p) ! i) \<and>
         fetches_of (t_country (tasks p ! i)) (run_pool w schedule p) =
           fetches_of (t_country (tasks p ! i)) p"
  using assms
proof (induction schedule arbitrary: p)
  case Nil
  then show ?case by (simp add: run_pool_def)
next
  case (Cons j schedule)
  let ?p = "pool_step w p j"
  from pool_step_after_cap[where w = w and j = j, OF Cons.prems]
  have 1: "i < length (tasks ?p)" and 2: "100 \<le> length (results ?p)"
    and 3: "at_check (tasks ?p ! i)"
    and 4: "map t_country (tasks ?p) = map t_country (tasks p)"
    and 5: "fetches_of (t_country (tasks p ! i)) ?p = fetches_of (t_country (tasks p ! i)) p"
    by simp_all
  from 4 Cons.prems(4) have d: "distinct (map t_country (tasks ?p))" by simp
  from 4 Cons.prems(1) have c: "t_country (tasks ?p ! i) = t_country (tasks p ! i)"
    by (metis 1 nth_map)
  from Cons.IH[OF 1 2 3 d] c 5 show ?case by (simp add: run_pool_def)
qed

text \<open>The pool rejects only when closing a tab rejects.\<close>

lemma task_step_rejected:
  assumes "\<forall>c n. rk_tab_close_ok w c n" and "\<not> rejected p"
  shows "\<not> rejected (task_step w i p)"
  using assms
  by (auto simp: task_step_def Let_def split: phase.splits list.splits promise.splits)

lemma run_pool_rejected:
  assumes "\<forall>c n. rk_tab_close_ok w c n" and "\<not> rejected p"
  shows "\<not> rejected (run_pool w schedule p)"
  using assms(2)
proof (induction schedule arbitrary: p)
  case Nil
  then show ?case by (simp add: run_pool_def)
next
  case (Cons j schedule)
  from Cons.prems assms(1) have "\<not> rejected (pool_step w p j)"
    by (simp add: pool_step_def task_step_rejected)
  from Cons.IH[OF this] show ?case by (simp add: run_pool_def)
qed

section \<open>Claim C1: one entry for each identifier\<close>

definition bare_card :: "string \<Rightarrow> card" where
  "bare_card u =
     \<lparr>c_href = ''/maps/place/'' @ u, c_headline = ''Reiki '' @ u, c_address = [], c_phone = [],
      c_website = []\<rparr>"

text \<open>
  The results page of England shows the listing A twice; no listing has a website; the
  search fails for the other countries.
\<close>

definition twice_world :: reiki_world where
  "twice_world =
     \<lparr>rk_launch_ok = True,
      rk_search = (\<lambda>c n. if c = ''England''
                         then Resolved [bare_card ''A'', bare_card ''B'', bare_card ''A'']
                         else Rejected),
      rk_tab_close_ok = (\<lambda>c n. True), rk_details = (\<lambda>u. []), rk_browser = blank_site,
      rk_browser_close_ok = True, rk_write_ok = True\<rparr>"

definition twice_schedule :: "nat list" where
  "twice_schedule = [0, 2, 1, 3, 0, 0, 0, 0, 0, 0, 0, 2, 2, 1, 1, 3, 3]"

text \<open>
  Amsterdam yields A, B and A again under another name, and on its second page C and B again.
\<close>

definition twice_api :: places_api where
  "twice_api =
     \<lparr>search_location = (\<lambda>l.
        if l = ''52.3676,4.9041''
        then Resolved \<lparr>sr_status = ''OK'',
               sr_results = Some [place ''A'', place ''B'', (place ''A'')\<lparr>r_name := Some ''Other''\<rparr>],
               sr_next_page_token = Some ''page-2''\<rparr>
        else Resolved no_results),
      search_pagetoken = (\<lambda>t.
        if t = ''page-2''
        then Resolved \<lparr>sr_status = ''OK'', sr_results = Some [place ''C'', place ''B''],
               sr_next_page_token = None\<rparr>
        else Rejected),
      details_request = (\<lambda>p n. Resolved \<lparr>dr_status = ''NOT_FOUND'', dr_result = None\<rparr>)\<rparr>"

text \<open>The same searches; the details request of A gives a name and an address.\<close>

definition listed_api :: places_api where
  "listed_api =
     twice_api\<lparr>details_request := (\<lambda>p n.
        if p = ''A''
        then Resolved \<lparr>dr_status = ''OK'',
               dr_result = Some \<lparr>pd_name = Some ''Praktijk A'',
                                 pd_formatted_address = Some ''Damrak 1, Amsterdam'',
                                 pd_formatted_phone_number = None, pd_website = None\<rparr>\<rparr>
        else Resolved \<lparr>dr_status = ''NOT_FOUND'', dr_result = None\<rparr>)\<rparr>"

text \<open>
  Claim C1 as stated fails for the Reiki script, which appends every card it reads and
  compares no identifiers: the listing that England shows twice is in the result twice.
\<close>

theorem duplicates_kept_counterexample:
  "scrapeReikiPractitioners twice_world twice_schedule =
     Some (Resolved
       [\<lparr>p_index = 1, p_practitionerName = ''Reiki A'', p_address = [], p_phone = [],
         p_email = Some [], p_website = [], p_googleUrl = ''/maps/place/A''\<rparr>,
        \<lparr>p_index = 2, p_practitionerName = ''Reiki B'', p_address = [], p_phone = [],
         p_email = Some [], p_website = [], p_googleUrl = ''/maps/place/B''\<rparr>,
        \<lparr>p_index = 3, p_practitionerName = ''Reiki A'', p_address = [], p_phone = [],
         p_email = Some [], p_website = [], p_googleUrl = ''/maps/place/A''\<rparr>])"
  by code_simp

lemma list_all2_map_fst:
  "list_all2 (\<lambda>x y. f y = x) xs ys \<Longrightarrow> map f ys = xs"
  by (induction rule: list_all2_induct) simp_all

lemma list_all2_right:
  "list_all2 P xs ys \<Longrightarrow> y \<in> set ys \<Longrightarrow> \<exists>x\<in>set xs. P x y"
  by (induction rule: list_all2_induct) auto

lemma records_get_member:
  assumes "i \<in> set (map r_place_id records)"
  shows "records_get records i \<in> set records \<and> r_place_id (records_get records i) = i"
proof -
  from assms have "find (\<lambda>r. r_place_id r = i) records \<noteq> None"
    by (auto simp: find_None_iff)
  then obtain e where e: "find (\<lambda>r. r_place_id r = i) records = Some e" by auto
  then have "e \<in> set records" and "r_place_id e = i"
    by (auto simp: find_Some_iff)
  with e show ?thesis by (simp add: records_get_def)
qed

lemma place_mapper_details:
  assumes "place_mapper api w records i = Resolved d"
  shows "d_place_id d = i \<and>
         (\<exists>placeDetails.
            pRetry 2 (getPlaceDetails api i) = Resolved placeDetails \<and>
            d_name d =
              (case placeDetails of
                 None \<Rightarrow> r_name (records_get records i)
               | Some pd \<Rightarrow> (case pd_name pd of
                              None \<Rightarrow> r_name (records_get records i)
                            | Some v \<Rightarrow> Some v)) \<and>
            d_address d =
              (case placeDetails of
                 None \<Rightarrow> r_formatted_address (records_get records i)
               | Some pd \<Rightarrow> (case pd_formatted_address pd of
                              None \<Rightarrow> r_formatted_address (records_get records i)
                            | Some v \<Rightarrow> Some v)))"
  using assms
  by (auto simp: place_mapper_def Let_def field_or_def split: promise.splits option.splits)

lemma enriching_appends:
  assumes "i < length (tasks p)" and "\<not> rejected p"
    and "t_phase (tasks p ! i) = Enriching (c # cs)" and "card_email rw c = Resolved email"
  shows "results (pool_step rw p i) =
           results p @
             [\<lparr>p_index = length (results p) + 1, p_practitionerName = c_headline c,
               p_address = c_address c, p_phone = c_phone c, p_email = email,
               p_website = card_website rw c, p_googleUrl = c_href c\<rparr>]"
  using assms by (simp add: pool_step_def task_step_def Let_def)

text \<open>
  Claim C1, amended. In the API-backed script, when the run writes its result, the places
  collected from all the pages searched hold each identifier once, in the order in which the
  identifiers were first seen, and each entry is the first place seen with its identifier
  (so it has the name and the address seen first). The result has one record for each of the
  first 100 of these identifiers, in that order; the name and the address of a record are
  those that the details request of its place gives (the reply that \<^verbatim>\<open>pRetry\<close> settles on),
  and those seen first where that reply gives none. The Reiki script compares no
  identifiers: a card whose e-mail lookup completes is appended to the results, whatever
  they hold (second conjunct).
\<close>

theorem places_deduplicated:
  "(json_file (main api w dsk) = Some details \<longrightarrow>
      (\<exists>records.
         fst (search_locations api LOCATIONS [] []) = Resolved records \<and>
         distinct (map r_place_id records) \<and>
         map r_place_id records =
           rev (remdups (rev (map r_place_id (yielded api (searches (main api w dsk)))))) \<and>
         (\<forall>e\<in>set records.
            find (\<lambda>x. r_place_id x = r_place_id e) (yielded api (searches (main api w dsk))) =
              Some e) \<and>
         map d_place_id details = take 100 (map r_place_id records) \<and>
         (\<forall>d\<in>set details. \<exists>e\<in>set records. \<exists>placeDetails.
            r_place_id e = d_place_id d \<and>
            pRetry 2 (getPlaceDetails api (d_place_id d)) = Resolved placeDetails \<and>
            d_name d =
              (case placeDetails of
                 None \<Rightarrow> r_name e
               | Some pd \<Rightarrow> (case pd_name pd of None \<Rightarrow> r_name e | Some v \<Rightarrow> Some v)) \<and>
            d_address d =
              (case placeDetails of
                 None \<Rightarrow> r_formatted_address e
               | Some pd \<Rightarrow> (case pd_formatted_address pd of
                              None \<Rightarrow> r_formatted_address e
                            | Some v \<Rightarrow> Some v))))) \<and>
   (i < length (tasks p) \<and> \<not> rejected p \<and> t_phase (tasks p ! i) = Enriching (c # cs) \<and>
      card_email rw c = Resolved email \<longrightarrow>
      results (pool_step rw p i) =
        results p @
          [\<lparr>p_index = length (results p) + 1, p_practitionerName = c_headline c,
            p_address = c_address c, p_phone = c_phone c, p_email = email,
            p_website = card_website rw c, p_googleUrl = c_href c\<rparr>])"
proof (intro conjI impI)
  assume js: "json_file (main api w dsk) = Some details"
  from main_json[OF js] obtain records where
    sl: "fst (search_locations api LOCATIONS [] []) = Resolved records" and
    pm: "pMap (place_mapper api w records) (take 100 (map r_place_id records)) = Resolved details"
    by blast
  let ?log = "searches (main api w dsk)"
  have log: "search_locations api LOCATIONS [] [] = (Resolved records, ?log)"
    using sl by (simp add: searches_main prod_eq_iff)
  from search_locations_spec[OF log] have rec: "records = add_results [] (yielded api ?log)"
    by auto
  have 1: "distinct (map r_place_id records)"
    unfolding rec by (rule add_results_distinct) simp
  have 2: "map r_place_id records = rev (remdups (rev (map r_place_id (yielded api ?log))))"
    using add_results_order[of "[]" "yielded api ?log"] rec by simp
  have 3: "\<forall>e\<in>set records. find (\<lambda>x. r_place_id x = r_place_id e) (yielded api ?log) = Some e"
    using add_results_first_seen_empty[of "yielded api ?log"] rec by simp
  from pMap_resolved[OF pm]
  have la: "list_all2 (\<lambda>i d. place_mapper api w records i = Resolved d)
              (take 100 (map r_place_id records)) details" .
  then have "list_all2 (\<lambda>i d. d_place_id d = i) (take 100 (map r_place_id records)) details"
    by (rule list_all2_mono) (simp add: place_mapper_details)
  then have 4: "map d_place_id details = take 100 (map r_place_id records)"
    by (rule list_all2_map_fst)
  have 5: "\<forall>d\<in>set details. \<exists>e\<in>set records. \<exists>placeDetails.
            r_place_id e = d_place_id d \<and>
            pRetry 2 (getPlaceDetails api (d_place_id d)) = Resolved placeDetails \<and>
            d_name d =
              (case placeDetails of
                 None \<Rightarrow> r_name e
               | Some pd \<Rightarrow> (case pd_name pd of None \<Rightarrow> r_name e | Some v \<Rightarrow> Some v)) \<and>
            d_address d =
              (case placeDetails of
                 None \<Rightarrow> r_formatted_address e
               | Some pd \<Rightarrow> (case pd_formatted_address pd of
                              None \<Rightarrow> r_formatted_address e
                            | Some v \<Rightarrow> Some v))"
  proof
    fix d assume "d \<in> set details"
    from list_all2_right[OF la this]
    obtain j where j: "j \<in> set (take 100 (map r_place_id records))"
      and m: "place_mapper api w records j = Resolved d"
      by blast
    from j have "j \<in> set (map r_place_id records)" by (rule in_set_takeD)
    then have g: "records_get records j \<in> set records" "r_place_id (records_get records j) = j"
      using records_get_member by simp_all
    from place_mapper_details[OF m] have dj: "d_place_id d = j" by simp
    from place_mapper_details[OF m] obtain placeDetails where
      pd: "pRetry 2 (getPlaceDetails api j) = Resolved placeDetails"
        "d_name d =
              (case placeDetails of
                 None \<Rightarrow> r_name (records_get records j)
               | Some pd \<Rightarrow> (case pd_name pd of
                              None \<Rightarrow> r_name (records_get records j)
                            | Some v \<Rightarrow> Some v))"
        "d_address d =
              (case placeDetails of
                 None \<Rightarrow> r_formatted_address (records_get records j)
               | Some pd \<Rightarrow> (case pd_formatted_address pd of
                              None \<Rightarrow> r_formatted_address (records_get records j)
                            | Some v \<Rightarrow> Some v))"
      by blast
    show "\<exists>e\<in>set records. \<exists>placeDetails.
            r_place_id e = d_place_id d \<and>
            pRetry 2 (getPlaceDetails api (d_place_id d)) = Resolved placeDetails \<and>
            d_name d =
              (case placeDetails of
                 None \<Rightarrow> r_name e
               | Some pd \<Rightarrow> (case pd_name pd of None \<Rightarrow> r_name e | Some v \<Rightarrow> Some v)) \<and>
            d_address d =
              (case placeDetails of
                 None \<Rightarrow> r_formatted_address e
               | Some pd \<Rightarrow> (case pd_formatted_address pd of
                              None \<Rightarrow> r_formatted_address e
                            | Some v \<Rightarrow> Some v))"
      using g(2) dj pd
      by (intro bexI[of _ "records_get records j"] exI[of _ placeDetails] conjI g(1)) simp_all
  qed
  show "\<exists>records.
         fst (search_locations api LOCATIONS [] []) = Resolved records \<and>
         distinct (map r_place_id records) \<and>
         map r_place_id records =
           rev (remdups (rev (map r_place_id (yielded api (searches (main api w dsk)))))) \<and>
         (\<forall>e\<in>set records.
            find (\<lambda>x. r_place_id x = r_place_id e) (yielded api (searches (main api w dsk))) =
              Some e) \<and>
         map d_place_id details = take 100 (map r_place_id records) \<and>
         (\<forall>d\<in>set details. \<exists>e\<in>set records. \<exists>placeDetails.
            r_place_id e = d_place_id d \<and>
            pRetry 2 (getPlaceDetails api (d_place_id d)) = Resolved placeDetails \<and>
            d_name d =
              (case placeDetails of
                 None \<Rightarrow> r_name e
               | Some pd \<Rightarrow> (case pd_name pd of None \<Rightarrow> r_name e | Some v \<Rightarrow> Some v)) \<and>
            d_address d =
              (case placeDetails of
                 None \<Rightarrow> r_formatted_address e
               | Some pd \<Rightarrow> (case pd_formatted_address pd of
                              None \<Rightarrow> r_formatted_address e
                            | Some v \<Rightarrow> Some v)))"
    by (intro exI[of _ records] conjI sl 1 2 3 4 5)
next
  assume "i < length (tasks p) \<and> \<not> rejected p \<and> t_phase (tasks p ! i) = Enriching (c # cs) \<and>
      card_email rw c = Resolved email"
  then show "results (pool_step rw p i) =
        results p @
          [\<lparr>p_index = length (results p) + 1, p_practitionerName = c_headline c,
            p_address = c_address c, p_phone = c_phone c, p_email = email,
            p_website = card_website rw c, p_googleUrl = c_href c\<rparr>]"
    using enriching_appends by blast
qed

theorem places_deduplicated_witness:
  "json_file (main listed_api offline_web disk_ok) =
     Some [\<lparr>d_place_id = ''A'', d_name = Some ''Praktijk A'',
            d_address = Some ''Damrak 1, Amsterdam'', d_phone = None,
            d_website = None, d_email = None\<rparr>,
           \<lparr>d_place_id = ''B'', d_name = Some ''Tandarts B'', d_address = None, d_phone = None,
            d_website = None, d_email = None\<rparr>,
           \<lparr>d_place_id = ''C'', d_name = Some ''Tandarts C'', d_address = None, d_phone = None,
            d_website = None, d_email = None\<rparr>] \<and>
   (\<exists>records.
      fst (search_locations listed_api LOCATIONS [] []) = Resolved records \<and>
      distinct (map r_place_id records) \<and>
      map r_place_id records =
        rev (remdups (rev (map r_place_id
          (yielded listed_api (searches (main listed_api offline_web disk_ok))))))) \<and>
   results (pool_step twice_world (run_pool twice_world [0, 0, 0, 0, 0] start) 0) =
     results (run_pool twice_world [0, 0, 0, 0, 0] start) @
       [\<lparr>p_index = length (results (run_pool twice_world [0, 0, 0, 0, 0] start)) + 1,
         p_practitionerName = c_headline (bare_card ''A''),
         p_address = c_address (bare_card ''A''), p_phone = c_phone (bare_card ''A''),
         p_email = Some [], p_website = card_website twice_world (bare_card ''A''),
         p_googleUrl = c_href (bare_card ''A'')\<rparr>] \<and>
   map p_googleUrl (results (run_pool twice_world [0, 0, 0, 0, 0] start)) =
     [''/maps/place/A'', ''/maps/place/B''] \<and>
   c_href (bare_card ''A'') = ''/maps/place/A''"
proof -
  let ?details = "[\<lparr>d_place_id = ''A'', d_name = Some ''Praktijk A'',
            d_address = Some ''Damrak 1, Amsterdam'', d_phone = None,
            d_website = None, d_email = None\<rparr>,
           \<lparr>d_place_id = ''B'', d_name = Some ''Tandarts B'', d_address = None, d_phone = None,
            d_website = None, d_email = None\<rparr>,
           \<lparr>d_place_id = ''C'', d_name = Some ''Tandarts C'', d_address = None, d_phone = None,
            d_website = None, d_email = None\<rparr>]"
  let ?p = "run_pool twice_world [0, 0, 0, 0, 0] start"
  note t = places_deduplicated[where api = listed_api and w = offline_web and dsk = disk_ok
      and details = ?details and i = 0 and p = ?p and c = "bare_card ''A''" and cs = "[]"
      and rw = twice_world and email = "Some []"]
  have h: "json_file (main listed_api offline_web disk_ok) = Some ?details" by code_simp
  from mp[OF t[THEN conjunct1] h] obtain records where
    r: "fst (search_locations listed_api LOCATIONS [] []) = Resolved records \<and>
        distinct (map r_place_id records) \<and>
        map r_place_id records =
          rev (remdups (rev (map r_place_id
            (yielded listed_api (searches (main listed_api offline_web disk_ok)))))) \<and>
         (\<forall>e\<in>set records.
            find (\<lambda>x. r_place_id x = r_place_id e)
              (yielded listed_api (searches (main listed_api offline_web disk_ok))) =
              Some e) \<and>
         map d_place_id ?details = take 100 (map r_place_id records) \<and>
         (\<forall>d\<in>set ?details. \<exists>e\<in>set records. \<exists>placeDetails.
            r_place_id e = d_place_id d \<and>
            pRetry 2 (getPlaceDetails listed_api (d_place_id d)) = Resolved placeDetails \<and>
            d_name d =
              (case placeDetails of
                 None \<Rightarrow> r_name e
               | Some pd \<Rightarrow> (case pd_name pd of None \<Rightarrow> r_name e | Some v \<Rightarrow> Some v)) \<and>
            d_address d =
              (case placeDetails of
                 None \<Rightarrow> r_formatted_address e
               | Some pd \<Rightarrow> (case pd_formatted_address pd of
                              None \<Rightarrow> r_formatted_address e
                            | Some v \<Rightarrow> Some v)))" ..
  note a = r[THEN conjunct1] and b = r[THEN conjunct2, THEN conjunct1]
    and c = r[THEN conjunct2, THEN conjunct2, THEN conjunct1]
  have k1: "0 < length (tasks ?p)" by code_simp
  have k2: "\<not> rejected ?p" by code_simp
  have k3: "t_phase (tasks ?p ! 0) = Enriching (bare_card ''A'' # [])" by code_simp
  have k4: "card_email twice_world (bare_card ''A'') = Resolved (Some [])" by code_simp
  have k5: "map p_googleUrl (results ?p) = [''/maps/place/A'', ''/maps/place/B'']" by code_simp
  have k6: "c_href (bare_card ''A'') = ''/maps/place/A''" by code_simp
  have r2: "results (pool_step twice_world ?p 0) =
     results ?p @
       [\<lparr>p_index = length (results ?p) + 1,
         p_practitionerName = c_headline (bare_card ''A''),
         p_address = c_address (bare_card ''A''), p_phone = c_phone (bare_card ''A''),
         p_email = Some [], p_website = card_website twice_world (bare_card ''A''),
         p_googleUrl = c_href (bare_card ''A'')\<rparr>]"
    by (rule mp[OF t[THEN conjunct2]]) (intro conjI k1 k2 k3 k4)
  have ex: "\<exists>records.
      fst (search_locations listed_api LOCATIONS [] []) = Resolved records \<and>
      distinct (map r_place_id records) \<and>
      map r_place_id records =
        rev (remdups (rev (map r_place_id
          (yielded listed_api (searches (main listed_api offline_web disk_ok))))))"
    by (intro conjI exI[of _ records] a b c)
  from h ex r2 k5 k6 show ?thesis by (intro conjI)
qed

section \<open>Claim C2: the cap\<close>

definition place_no :: "nat \<Rightarrow> raw_place" where
  "place_no n = place [char_of (48 + n div 10), char_of (48 + n mod 10)]"

definition result_page :: "nat \<Rightarrow> nat \<Rightarrow> string option \<Rightarrow> search_reply" where
  "result_page a b token =
     \<lparr>sr_status = ''OK'', sr_results = Some (map place_no [a ..< b]), sr_next_page_token = token\<rparr>"

text \<open>
  Amsterdam yields three pages of twenty places and Rotterdam two more; the second page of
  Rotterdam names a third.
\<close>

definition busy_api :: places_api where
  "busy_api =
     \<lparr>search_location = (\<lambda>l.
        if l = ''52.3676,4.9041'' then Resolved (result_page 0 20 (Some ''ams-2''))
        else if l = ''51.9244,4.4777'' then Resolved (result_page 60 80 (Some ''rot-2''))
        else Resolved no_results),
      search_pagetoken = (\<lambda>t.
        if t = ''ams-2'' then Resolved (result_page 20 40 (Some ''ams-3''))
        else if t = ''ams-3'' then Resolved (result_page 40 60 None)
        else if t = ''rot-2'' then Resolved (result_page 80 100 (Some ''rot-3''))
        else Resolved no_results),
      details_request = (\<lambda>p n. Resolved some_details)\<rparr>"

text \<open>
  Claim C2 as stated fails for the API-backed script, which tests the cap before the first
  search of a region only: the third page of Rotterdam is requested when 100 places are
  already held. (The details and the e-mail of every place are fetched after that, in the
  second phase of \<^verbatim>\<open>main\<close>.)
\<close>

theorem fetch_after_cap_counterexample:
  "searches (main busy_api offline_web disk_ok) =
     [(ByLocation ''52.3676,4.9041'', 0), (ByPagetoken ''ams-2'', 20), (ByPagetoken ''ams-3'', 40),
      (ByLocation ''51.9244,4.4777'', 60), (ByPagetoken ''rot-2'', 80), (ByPagetoken ''rot-3'', 100)]"
  unfolding searches_main by code_simp

text \<open>
  A state of the Reiki run: 100 records are held; the task of England has pushed the last
  one and waits with one card left; the task of Scotland awaits the e-mail of a card.
\<close>

definition full_pool :: pool where
  "full_pool =
     \<lparr>results = replicate 100
        \<lparr>p_index = 1, p_practitionerName = ''Reiki'', p_address = [], p_phone = [],
         p_email = Some [], p_website = [], p_googleUrl = ''/maps/place/A''\<rparr>,
      tasks =
        [\<lparr>t_country = ''England'', t_attempt = 1, t_success = False, t_phase = Waiting [bare_card ''B'']\<rparr>,
         \<lparr>t_country = ''Ireland'', t_attempt = 1, t_success = False, t_phase = LoopHead\<rparr>,
         \<lparr>t_country = ''Scotland'', t_attempt = 1, t_success = False, t_phase = Enriching [bare_card ''C'']\<rparr>,
         \<lparr>t_country = ''Wales'', t_attempt = 2, t_success = False, t_phase = Done\<rparr>],
      rejected = False,
      fetches = [(''England'', CountrySearch 1), (''Scotland'', CountrySearch 1),
                 (''England'', DetailsPage ''/maps/place/A'')]\<rparr>"

text \<open>A city of the Hungarian run with two listings, one with a website.\<close>

definition small_town :: hu_world where
  "small_town =
     \<lparr>hu_launch_ok = True,
      hu_search = (\<lambda>city n.
        if city = ''Budapest'' \<and> n = 2
        then Resolved [\<lparr>c_href = ''/maps/place/D1'', c_headline = ''Fogaszat'', c_address = [],
                         c_phone = [], c_website = ''https://fogaszat-pecs.hu''\<rparr>,
                       \<lparr>c_href = ''/maps/place/D2'', c_headline = ''Dental'', c_address = [],
                         c_phone = [], c_website = []\<rparr>]
        else Rejected),
      hu_axios_get = example_get, hu_browser_close_ok = True, hu_write_ok = True\<rparr>"

text \<open>
  In the Reiki script the push that ends the enrichment of a card is not conditional on the
  number of records held: the test comes after it. A task that has passed its test pushes
  its record also when the other tasks have meanwhile filled the result.
\<close>

lemma enriching_pushes:
  assumes "i < length (tasks p)" and "\<not> rejected p"
    and "t_phase (tasks p ! i) = Enriching (c # cs)" and "card_email w c = Resolved email"
  shows "length (results (pool_step w p i)) = length (results p) + 1"
  using assms by (simp add: pool_step_def task_step_def Let_def)

text \<open>
  Claim C2, amended.
  \<^item> The API-backed script (cap 100): the result never has more than 100 records, and no
    region is opened (no search by location is issued) once 100 places are held; the pages of
    the region in hand are still requested.
  \<^item> The Hungarian script (cap 500): the result never has more than 500 records, and every
    fetch (the search of a city, the visit of a website) is issued with fewer than 500
    records held.
  \<^item> The Reiki script (cap 100): from a state with 100 records or more, a task that stands at
    one of its tests (before an attempt, after a push, or returned) never takes a card again
    and issues no further fetch, under every schedule.
\<close>

theorem cap_respected:
  "(json_file (main api w dsk) = Some details \<longrightarrow> length details \<le> 100) \<and>
   (\<forall>entry\<in>set (searches (main api w dsk)). is_location (fst entry) \<longrightarrow> snd entry < 100) \<and>
   (fst (scrapeDentists hw) = Resolved data \<longrightarrow> length data \<le> 500) \<and>
   (\<forall>entry\<in>set (snd (scrapeDentists hw)). snd entry < 500) \<and>
   (i < length (tasks p) \<and> 100 \<le> length (results p) \<and> at_check (tasks p ! i) \<and>
      distinct (map t_country (tasks p)) \<longrightarrow>
      at_check (tasks (run_pool rw schedule p) ! i) \<and>
      fetches_of (t_country (tasks p ! i)) (run_pool rw schedule p) =
        fetches_of (t_country (tasks p ! i)) p)"
proof (intro conjI impI)
  assume "json_file (main api w dsk) = Some details"
  from main_json[OF this] obtain records where
    "pMap (place_mapper api w records) (take 100 (map r_place_id records)) = Resolved details"
    by blast
  from pMap_resolved[OF this] have "length (take 100 (map r_place_id records)) = length details"
    by (rule list_all2_lengthD)
  then show "length details \<le> 100" by simp
next
  obtain out log where sl: "search_locations api LOCATIONS [] [] = (out, log)"
    by (cases "search_locations api LOCATIONS [] []")
  from search_locations_spec[OF sl]
  have "\<forall>entry\<in>set log. is_location (fst entry) \<longrightarrow> snd entry < 100" by auto
  with sl show "\<forall>entry\<in>set (searches (main api w dsk)). is_location (fst entry) \<longrightarrow> snd entry < 100"
    by (simp add: searches_main)
next
  assume "fst (scrapeDentists hw) = Resolved data"
  with scrapeDentists_cap[of hw] show "length data \<le> 500" by blast
next
  from scrapeDentists_cap[of hw] show "\<forall>entry\<in>set (snd (scrapeDentists hw)). snd entry < 500"
    by (simp add: below_def)
next
  assume a: "i < length (tasks p) \<and> 100 \<le> length (results p) \<and> at_check (tasks p ! i) \<and>
      distinct (map t_country (tasks p))"
  then have "i < length (tasks p)" "100 \<le> length (results p)" "at_check (tasks p ! i)"
    "distinct (map t_country (tasks p))" by simp_all
  from run_pool_after_cap[OF this]
  show "at_check (tasks (run_pool rw schedule p) ! i)"
    and "fetches_of (t_country (tasks p ! i)) (run_pool rw schedule p) =
        fetches_of (t_country (tasks p ! i)) p"
    by simp_all
qed

theorem cap_respected_witness:
  "length [\<lparr>d_place_id = ''A'', d_name = Some ''Tandarts A'', d_address = None, d_phone = None,
            d_website = None, d_email = None\<rparr>,
           \<lparr>d_place_id = ''B'', d_name = Some ''Tandarts B'', d_address = None, d_phone = None,
            d_website = None, d_email = None\<rparr>,
           \<lparr>d_place_id = ''C'', d_name = Some ''Tandarts C'', d_address = None, d_phone = None,
            d_website = None, d_email = None\<rparr>] \<le> (100 :: nat) \<and>
   snd (ByLocation ''51.9244,4.4777'', 3 :: nat) < 100 \<and>
   length [\<lparr>dt_index = 1, dt_clinicName = ''Fogaszat'', dt_dentistName = [], dt_address = [],
            dt_phone = [], dt_email = None, dt_website = ''https://fogaszat-pecs.hu'',
            dt_googleUrl = ''/maps/place/D1''\<rparr>,
           \<lparr>dt_index = 2, dt_clinicName = ''Dental'', dt_dentistName = [], dt_address = [],
            dt_phone = [], dt_email = Some [], dt_website = [],
            dt_googleUrl = ''/maps/place/D2''\<rparr>] \<le> (500 :: nat) \<and>
   snd (SiteFetch ''https://fogaszat-pecs.hu'', 0 :: nat) < 500 \<and>
   at_check (tasks (run_pool twice_world [0, 2, 0, 1] full_pool) ! 0) \<and>
   fetches_of (t_country (tasks full_pool ! 0)) (run_pool twice_world [0, 2, 0, 1] full_pool) =
     fetches_of (t_country (tasks full_pool ! 0)) full_pool"
proof -
  let ?details = "[\<lparr>d_place_id = ''A'', d_name = Some ''Tandarts A'', d_address = None, d_phone = None,
            d_website = None, d_email = None\<rparr>,
           \<lparr>d_place_id = ''B'', d_name = Some ''Tandarts B'', d_address = None, d_phone = None,
            d_website = None, d_email = None\<rparr>,
           \<lparr>d_place_id = ''C'', d_name = Some ''Tandarts C'', d_address = None, d_phone = None,
            d_website = None, d_email = None\<rparr>]"
  let ?data = "[\<lparr>dt_index = 1, dt_clinicName = ''Fogaszat'', dt_dentistName = [], dt_address = [],
            dt_phone = [], dt_email = None, dt_website = ''https://fogaszat-pecs.hu'',
            dt_googleUrl = ''/maps/place/D1''\<rparr>,
           \<lparr>dt_index = 2, dt_clinicName = ''Dental'', dt_dentistName = [], dt_address = [],
            dt_phone = [], dt_email = Some [], dt_website = [],
            dt_googleUrl = ''/maps/place/D2''\<rparr>]"
  note t = cap_respected[of twice_api offline_web disk_ok ?details small_town ?data 0 full_pool
      twice_world "[0, 2, 0, 1]"]
  have a: "json_file (main twice_api offline_web disk_ok) = Some ?details" by code_simp
  have b1: "(ByLocation ''51.9244,4.4777'', 3) \<in> set (searches (main twice_api offline_web disk_ok))"
    unfolding searches_main by code_simp
  have b2: "is_location (fst (ByLocation ''51.9244,4.4777'', 3 :: nat))" by simp
  have c: "fst (scrapeDentists small_town) = Resolved ?data" by code_simp
  have d: "(SiteFetch ''https://fogaszat-pecs.hu'', 0) \<in> set (snd (scrapeDentists small_town))"
    by code_simp
  have e1: "0 < length (tasks full_pool)" by (simp add: full_pool_def)
  have e2: "100 \<le> length (results full_pool)" by (simp add: full_pool_def)
  have e3: "at_check (tasks full_pool ! 0)" by (simp add: full_pool_def at_check_def)
  have e4: "distinct (map t_country (tasks full_pool))" by (simp add: full_pool_def)
  have r1: "length ?details \<le> 100"
    by (rule mp[OF t[THEN conjunct1]]) (rule a)
  have r2: "snd (ByLocation ''51.9244,4.4777'', 3 :: nat) < 100"
    by (rule mp[OF bspec[OF t[THEN conjunct2, THEN conjunct1] b1]]) (rule b2)
  have r3: "length ?data \<le> 500"
    by (rule mp[OF t[THEN conjunct2, THEN conjunct2, THEN conjunct1]]) (rule c)
  have r4: "snd (SiteFetch ''https://fogaszat-pecs.hu'', 0 :: nat) < 500"
    by (rule bspec[OF t[THEN conjunct2, THEN conjunct2, THEN conjunct2, THEN conjunct1] d])
  have r5: "at_check (tasks (run_pool twice_world [0, 2, 0, 1] full_pool) ! 0) \<and>
      fetches_of (t_country (tasks full_pool ! 0)) (run_pool twice_world [0, 2, 0, 1] full_pool) =
        fetches_of (t_country (tasks full_pool ! 0)) full_pool"
    by (rule mp[OF t[THEN conjunct2, THEN conjunct2, THEN conjunct2, THEN conjunct2]])
       (intro conjI e1 e2 e3 e4)
  from r1 r2 r3 r4 r5 show ?thesis by (intro conjI) simp_all
qed

section \<open>Claim C10: the exit status\<close>

text \<open>A run in which every search and every listing succeeds but the CSV file cannot be written.\<close>

definition readonly_world :: reiki_world where
  "readonly_world = twice_world\<lparr>rk_write_ok := False\<rparr>"

text \<open>
  Claim C10 as stated fails for the browser-backed scripts: the call that writes the CSV file
  stands in the same \<^verbatim>\<open>try\<close> block as the scrape, and its handler exits with status 1. Here the
  browser starts, the scrape returns three records, and the run exits with status 1.
\<close>

theorem exit_one_without_setup_failure_counterexample:
  "rk_launch_ok readonly_world \<and>
   (\<exists>data. scrapeReikiPractitioners readonly_world twice_schedule = Some (Resolved data) \<and>
           length data = 3) \<and>
   reiki_script readonly_world twice_schedule = Some (1, None)"
proof -
  have a: "rk_launch_ok readonly_world" by code_simp
  have b: "scrapeReikiPractitioners readonly_world twice_schedule =
             Some (Resolved (results (run_pool readonly_world twice_schedule start)))"
    by code_simp
  have c: "length (results (run_pool readonly_world twice_schedule start)) = 3" by code_simp
  have d: "reiki_script readonly_world twice_schedule = Some (1, None)" by code_simp
  from a b c d show ?thesis by (intro conjI exI[of _ "results (run_pool readonly_world twice_schedule start)"])
qed

subsection \<open>Every run comes to an end\<close>

text \<open>
  The number of steps a task can still take is bounded: an attempt takes at most two steps
  for each of its cards and three more, and there are at most two attempts.
\<close>

definition cards_at :: "reiki_world \<Rightarrow> string \<Rightarrow> nat \<Rightarrow> nat" where
  "cards_at w c n = (case rk_search w c n of Rejected \<Rightarrow> 0 | Resolved cs \<Rightarrow> length cs)"

definition attempts_left :: "reiki_world \<Rightarrow> task \<Rightarrow> nat" where
  "attempts_left w t =
     (if t_success t then 0
      else (if t_attempt t < 1 then 2 * cards_at w (t_country t) 1 + 3 else 0) +
           (if t_attempt t < 2 then 2 * cards_at w (t_country t) (Suc (Suc 0)) + 3 else 0))"

definition task_work :: "reiki_world \<Rightarrow> task \<Rightarrow> nat" where
  "task_work w t =
     (case t_phase t of
        Done \<Rightarrow> 0
      | LoopHead \<Rightarrow> 1 + attempts_left w t
      | Enriching cs \<Rightarrow> 2 * length cs + 2 + attempts_left w t
      | Waiting cs \<Rightarrow> 2 * length cs + 3 + attempts_left w t)"

definition total_work :: "reiki_world \<Rightarrow> pool \<Rightarrow> nat" where
  "total_work w p = sum_list (map (task_work w) (tasks p))"

lemma task_step_work:
  assumes "i < length (tasks p)" and "t_phase (tasks p ! i) \<noteq> Done"
  shows "task_work w (tasks (task_step w i p) ! i) < task_work w (tasks p ! i)"
proof (cases "t_phase (tasks p ! i)")
  case LoopHead
  show ?thesis
  proof (cases "t_attempt (tasks p ! i) < 2 \<and> \<not> t_success (tasks p ! i) \<and> length (results p) < 100")
    case False
    with LoopHead assms(1) show ?thesis
      by (auto simp: task_step_def Let_def task_work_def)
  next
    case True
    then consider "t_attempt (tasks p ! i) = 0" | "t_attempt (tasks p ! i) = 1" by linarith
    then show ?thesis
    proof cases
      case 1
      with True LoopHead assms(1) show ?thesis
        by (auto simp: task_step_def Let_def task_work_def attempts_left_def cards_at_def
                 split: promise.splits)
    next
      case 2
      with True LoopHead assms(1) show ?thesis
        by (auto simp: task_step_def Let_def task_work_def attempts_left_def cards_at_def
                 split: promise.splits)
    qed
  qed
next
  case (Enriching cs)
  with assms(1) show ?thesis
    by (cases cs)
       (auto simp: task_step_def Let_def task_work_def attempts_left_def split: promise.splits)
next
  case (Waiting cs)
  with assms(1) show ?thesis
    by (auto simp: task_step_def Let_def task_work_def attempts_left_def)
next
  case Done
  with assms(2) show ?thesis by simp
qed

lemma sum_list_one_less:
  assumes "i < length xs" and "length ys = length xs"
    and "\<And>j. j < length xs \<Longrightarrow> j \<noteq> i \<Longrightarrow> f (ys ! j) = f (xs ! j)"
    and "f (ys ! i) < (f (xs ! i) :: nat)"
  shows "sum_list (map f ys) < sum_list (map f xs)"
  using assms
proof (induction xs arbitrary: i ys)
  case Nil
  then show ?case by simp
next
  case (Cons x xs)
  then obtain y ys' where ys: "ys = y # ys'" by (cases ys) auto
  show ?case
  proof (cases i)
    case 0
    have "map f ys' = map f xs"
    proof (rule nth_equalityI)
      show "length (map f ys') = length (map f xs)" using Cons.prems(2) ys by simp
    next
      fix j assume "j < length (map f ys')"
      then have j: "j < length xs" using Cons.prems(2) ys by simp
      with Cons.prems(3)[of "Suc j"] 0 ys show "map f ys' ! j = map f xs ! j"
        using Cons.prems(2) by simp
    qed
    with Cons.prems(4) 0 ys show ?thesis by simp
  next
    case (Suc k)
    have "sum_list (map f ys') < sum_list (map f xs)"
    proof (rule Cons.IH[of k])
      show "k < length xs" using Cons.prems(1) Suc by simp
      show "length ys' = length xs" using Cons.prems(2) ys by simp
      show "f (ys' ! k) < f (xs ! k)" using Cons.prems(4) Suc ys by simp
    next
      fix j assume "j < length xs" "j \<noteq> k"
      with Cons.prems(3)[of "Suc j"] Suc ys show "f (ys' ! j) = f (xs ! j)" by simp
    qed
    moreover from Cons.prems(3)[of 0] Suc ys have "f y = f x" by simp
    ultimately show ?thesis using ys by simp
  qed
qed

lemma task_step_total:
  assumes "i < length (tasks p)" and "t_phase (tasks p ! i) \<noteq> Done"
  shows "total_work w (task_step w i p) < total_work w p"
  unfolding total_work_def
proof (rule sum_list_one_less[of i])
  note fr = task_step_frame[where w = w and i = i and p = p, OF assms(1)]
  show "i < length (tasks p)" by (rule assms(1))
  show "length (tasks (task_step w i p)) = length (tasks p)" by (rule fr(1))
  show "task_work w (tasks (task_step w i p) ! i) < task_work w (tasks p ! i)"
    using assms by (rule task_step_work)
  fix j assume "j < length (tasks p)" "j \<noteq> i"
  with fr(2) show "task_work w (tasks (task_step w i p) ! j) = task_work w (tasks p ! j)" by simp
qed

lemma some_schedule_finishes:
  "\<exists>schedule. rejected (run_pool w schedule p) \<or> all_done (run_pool w schedule p)"
proof (induction "total_work w p" arbitrary: p rule: less_induct)
  case less
  show ?case
  proof (cases "rejected p \<or> all_done p")
    case True
    then have "rejected (run_pool w [] p) \<or> all_done (run_pool w [] p)"
      by (simp add: run_pool_def)
    then show ?thesis by blast
  next
    case False
    then obtain i where i: "i < length (tasks p)" "t_phase (tasks p ! i) \<noteq> Done"
      by (auto simp: all_done_def list_all_length)
    with False have ps: "pool_step w p i = task_step w i p" by (simp add: pool_step_def)
    from task_step_total[OF i] have "total_work w (task_step w i p) < total_work w p" .
    from less[OF this] obtain schedule where
      "rejected (run_pool w schedule (task_step w i p)) \<or>
       all_done (run_pool w schedule (task_step w i p))" by blast
    with ps have "rejected (run_pool w (i # schedule) p) \<or> all_done (run_pool w (i # schedule) p)"
      by (simp add: run_pool_def)
    then show ?thesis by blast
  qed
qed


lemma some_schedule_completes:
  assumes "\<forall>c n. rk_tab_close_ok w c n"
  shows "\<exists>schedule. all_done (run_pool w schedule start)"
proof -
  from some_schedule_finishes[of w start] obtain schedule where
    s: "rejected (run_pool w schedule start) \<or> all_done (run_pool w schedule start)" by blast
  have "\<not> rejected start" by (simp add: start_def)
  with assms have "\<not> rejected (run_pool w schedule start)" by (rule run_pool_rejected)
  with s show ?thesis by blast
qed

lemma reiki_script_returned:
  assumes "rk_launch_ok w" and "\<forall>c n. rk_tab_close_ok w c n" and "rk_browser_close_ok w"
    and "all_done (run_pool w schedule start)"
  shows "reiki_script w schedule =
           Some (if rk_write_ok w then (0, Some (results (run_pool w schedule start)))
                 else (1, None))"
proof -
  have "\<not> rejected start" by (simp add: start_def)
  with assms(2) have "\<not> rejected (run_pool w schedule start)" by (rule run_pool_rejected)
  with assms(1,3,4) show ?thesis
    by (simp add: reiki_script_def scrapeReikiPractitioners_def Let_def)
qed

lemma hu_script_closed:
  assumes "hu_browser_close_ok hw"
  shows "hu_script hw =
           (if hu_launch_ok hw \<and> hu_write_ok hw
            then (0, Some (fst (each_city hw cities [] []))) else (1, None))"
  using assms by (simp add: hu_script_def scrapeDentists_def split: prod.splits)

text \<open>
  Claim C10, amended. Where the tabs and the browser close without an error:
  \<^item> a run of the Reiki script in which every country task has returned exits with status 0
    and the records collected, also when countries have failed, if the CSV file is written,
    and with status 1 if writing it fails (first conjunct); with every schedule it exits
    with status 1 when the browser does not start (second); and some schedule lets every
    task return (third);
  \<^item> the Hungarian script exits with status 0 and the records collected when the browser
    starts and the CSV file is written, and with status 1 otherwise (fourth).

  The API-backed script exits with status 1 when the key is missing and with status 0
  otherwise, whatever \<^verbatim>\<open>main\<close> met (fifth).
\<close>

theorem exit_status:
  "(rk_launch_ok rw \<and> (\<forall>c n. rk_tab_close_ok rw c n) \<and> rk_browser_close_ok rw \<and>
      all_done (run_pool rw schedule start) \<longrightarrow>
      reiki_script rw schedule =
        Some (if rk_write_ok rw then (0, Some (results (run_pool rw schedule start)))
              else (1, None))) \<and>
   (\<not> rk_launch_ok rw \<longrightarrow> reiki_script rw schedule = Some (1, None)) \<and>
   ((\<forall>c n. rk_tab_close_ok rw c n) \<longrightarrow> (\<exists>s. all_done (run_pool rw s start))) \<and>
   (hu_browser_close_ok hw \<longrightarrow>
      hu_script hw =
        (if hu_launch_ok hw \<and> hu_write_ok hw
         then (0, Some (fst (each_city hw cities [] []))) else (1, None))) \<and>
   fst (api_script api_key api w dsk) = (if api_key = None \<or> api_key = Some [] then 1 else 0)"
proof (intro conjI impI)
  assume "rk_launch_ok rw \<and> (\<forall>c n. rk_tab_close_ok rw c n) \<and> rk_browser_close_ok rw \<and>
      all_done (run_pool rw schedule start)"
  then show "reiki_script rw schedule =
        Some (if rk_write_ok rw then (0, Some (results (run_pool rw schedule start)))
              else (1, None))"
    using reiki_script_returned by blast
next
  assume "\<not> rk_launch_ok rw"
  then show "reiki_script rw schedule = Some (1, None)"
    by (simp add: reiki_script_def scrapeReikiPractitioners_def)
next
  assume "\<forall>c n. rk_tab_close_ok rw c n"
  then show "\<exists>s. all_done (run_pool rw s start)" by (rule some_schedule_completes)
next
  assume "hu_browser_close_ok hw"
  then show "hu_script hw =
        (if hu_launch_ok hw \<and> hu_write_ok hw
         then (0, Some (fst (each_city hw cities [] []))) else (1, None))"
    by (rule hu_script_closed)
next
  show "fst (api_script api_key api w dsk) = (if api_key = None \<or> api_key = Some [] then 1 else 0)"
    by (simp add: api_script_def)
qed

theorem exit_status_witness:
  "reiki_script twice_world twice_schedule =
     Some (0, Some (results (run_pool twice_world twice_schedule start))) \<and>
   length (results (run_pool twice_world twice_schedule start)) = 3 \<and>
   rk_search twice_world ''Wales'' 1 = Rejected \<and>
   reiki_script (twice_world\<lparr>rk_launch_ok := False\<rparr>) [] = Some (1, None) \<and>
   (\<exists>s. all_done (run_pool twice_world s start)) \<and>
   hu_script small_town = (0, Some (fst (each_city small_town cities [] [])))"
proof -
  note t = exit_status[where rw = twice_world and schedule = twice_schedule and hw = small_town]
  note u = exit_status[where rw = "twice_world\<lparr>rk_launch_ok := False\<rparr>" and schedule = "[]"]
  have a1: "rk_launch_ok twice_world" and a2: "\<forall>c n. rk_tab_close_ok twice_world c n"
    and a3: "rk_browser_close_ok twice_world" and a4: "rk_write_ok twice_world"
    by (simp_all add: twice_world_def)
  have a5: "all_done (run_pool twice_world twice_schedule start)" by code_simp
  have a6: "length (results (run_pool twice_world twice_schedule start)) = 3" by code_simp
  have a7: "rk_search twice_world ''Wales'' 1 = Rejected" by code_simp
  have b: "\<not> rk_launch_ok (twice_world\<lparr>rk_launch_ok := False\<rparr>)" by simp
  have h1: "hu_browser_close_ok small_town" and h2: "hu_launch_ok small_town"
    and h3: "hu_write_ok small_town"
    by (simp_all add: small_town_def)
  have "reiki_script twice_world twice_schedule =
        Some (if rk_write_ok twice_world
              then (0, Some (results (run_pool twice_world twice_schedule start)))
              else (1, None))"
    by (rule mp[OF t[THEN conjunct1]]) (intro conjI a1 a2 a3 a5)
  then have r1: "reiki_script twice_world twice_schedule =
     Some (0, Some (results (run_pool twice_world twice_schedule start)))"
    by (simp only: a4 if_True)
  have r2: "reiki_script (twice_world\<lparr>rk_launch_ok := False\<rparr>) [] = Some (1, None)"
    by (rule mp[OF u[THEN conjunct2, THEN conjunct1]]) (rule b)
  have r3: "\<exists>s. all_done (run_pool twice_world s start)"
    by (rule mp[OF t[THEN conjunct2, THEN conjunct2, THEN conjunct1]]) (rule a2)
  have "hu_script small_town =
        (if hu_launch_ok small_town \<and> hu_write_ok small_town
         then (0, Some (fst (each_city small_town cities [] []))) else (1, None))"
    by (rule mp[OF t[THEN conjunct2, THEN conjunct2, THEN conjunct2, THEN conjunct1]]) (rule h1)
  then have r4: "hu_script small_town = (0, Some (fst (each_city small_town cities [] [])))"
    by (simp only: h2 h3 simp_thms if_True)
  from r1 a6 a7 r2 r3 r4 show ?thesis by (intro conjI)
qed

end
